theory Spec2Isabelle
  imports Main "HOL-Library.Word"
begin

section \<open>Constants and configuration (src/final/db.py, lines 6-60)\<close>

text \<open>Python integers are unbounded, so every number of the program is an \<open>int\<close>.
  A \<open>bytearray\<close> is a list of 8-bit words.\<close>

type_synonym byte = "8 word"
type_synonym bytes = "byte list"

definition COLUMN_USERNAME_SIZE :: int where "COLUMN_USERNAME_SIZE = 32"
definition COLUMN_EMAIL_SIZE :: int where "COLUMN_EMAIL_SIZE = 255"

text \<open>\<open>struct.calcsize('<I32s255s')\<close>: four bytes for the integer and one byte per
  character of the two \<open>s\<close> fields; the little-endian format has no padding.\<close>

definition ROW_SIZE :: int where
  "ROW_SIZE = 4 + COLUMN_USERNAME_SIZE + COLUMN_EMAIL_SIZE"

definition PAGE_SIZE :: int where "PAGE_SIZE = 4096"
definition TABLE_MAX_PAGES :: int where "TABLE_MAX_PAGES = 400"
definition INVALID_PAGE_NUM :: int where "INVALID_PAGE_NUM = 0xFFFFFFFF"

definition NODE_TYPE_SIZE :: int where "NODE_TYPE_SIZE = 1"
definition NODE_TYPE_OFFSET :: int where "NODE_TYPE_OFFSET = 0"
definition IS_ROOT_SIZE :: int where "IS_ROOT_SIZE = 1"
definition IS_ROOT_OFFSET :: int where "IS_ROOT_OFFSET = NODE_TYPE_SIZE"
definition PARENT_POINTER_SIZE :: int where "PARENT_POINTER_SIZE = 4"
definition PARENT_POINTER_OFFSET :: int where
  "PARENT_POINTER_OFFSET = IS_ROOT_OFFSET + IS_ROOT_SIZE"
definition COMMON_NODE_HEADER_SIZE :: int where
  "COMMON_NODE_HEADER_SIZE = NODE_TYPE_SIZE + IS_ROOT_SIZE + PARENT_POINTER_SIZE"

definition INTERNAL_NODE_NUM_KEYS_SIZE :: int where "INTERNAL_NODE_NUM_KEYS_SIZE = 4"
definition INTERNAL_NODE_NUM_KEYS_OFFSET :: int where
  "INTERNAL_NODE_NUM_KEYS_OFFSET = COMMON_NODE_HEADER_SIZE"
definition INTERNAL_NODE_RIGHT_CHILD_SIZE :: int where "INTERNAL_NODE_RIGHT_CHILD_SIZE = 4"
definition INTERNAL_NODE_RIGHT_CHILD_OFFSET :: int where
  "INTERNAL_NODE_RIGHT_CHILD_OFFSET = INTERNAL_NODE_NUM_KEYS_OFFSET + INTERNAL_NODE_NUM_KEYS_SIZE"
definition INTERNAL_NODE_HEADER_SIZE :: int where
  "INTERNAL_NODE_HEADER_SIZE =
     COMMON_NODE_HEADER_SIZE + INTERNAL_NODE_NUM_KEYS_SIZE + INTERNAL_NODE_RIGHT_CHILD_SIZE"
definition INTERNAL_NODE_KEY_SIZE :: int where "INTERNAL_NODE_KEY_SIZE = 4"
definition INTERNAL_NODE_CHILD_SIZE :: int where "INTERNAL_NODE_CHILD_SIZE = 4"
definition INTERNAL_NODE_CELL_SIZE :: int where
  "INTERNAL_NODE_CELL_SIZE = INTERNAL_NODE_CHILD_SIZE + INTERNAL_NODE_KEY_SIZE"
definition INTERNAL_NODE_MAX_KEYS :: int where "INTERNAL_NODE_MAX_KEYS = 3"

definition LEAF_NODE_NUM_CELLS_SIZE :: int where "LEAF_NODE_NUM_CELLS_SIZE = 4"
definition LEAF_NODE_NUM_CELLS_OFFSET :: int where
  "LEAF_NODE_NUM_CELLS_OFFSET = COMMON_NODE_HEADER_SIZE"
definition LEAF_NODE_NEXT_LEAF_SIZE :: int where "LEAF_NODE_NEXT_LEAF_SIZE = 4"
definition LEAF_NODE_NEXT_LEAF_OFFSET :: int where
  "LEAF_NODE_NEXT_LEAF_OFFSET = LEAF_NODE_NUM_CELLS_OFFSET + LEAF_NODE_NUM_CELLS_SIZE"
definition LEAF_NODE_HEADER_SIZE :: int where
  "LEAF_NODE_HEADER_SIZE =
     COMMON_NODE_HEADER_SIZE + LEAF_NODE_NUM_CELLS_SIZE + LEAF_NODE_NEXT_LEAF_SIZE"
definition LEAF_NODE_KEY_SIZE :: int where "LEAF_NODE_KEY_SIZE = 4"
definition LEAF_NODE_KEY_OFFSET :: int where "LEAF_NODE_KEY_OFFSET = 0"
definition LEAF_NODE_VALUE_SIZE :: int where "LEAF_NODE_VALUE_SIZE = ROW_SIZE"
definition LEAF_NODE_VALUE_OFFSET :: int where
  "LEAF_NODE_VALUE_OFFSET = LEAF_NODE_KEY_OFFSET + LEAF_NODE_KEY_SIZE"
definition LEAF_NODE_CELL_SIZE :: int where
  "LEAF_NODE_CELL_SIZE = LEAF_NODE_KEY_SIZE + LEAF_NODE_VALUE_SIZE"
definition LEAF_NODE_SPACE_FOR_CELLS :: int where
  "LEAF_NODE_SPACE_FOR_CELLS = PAGE_SIZE - LEAF_NODE_HEADER_SIZE"
definition LEAF_NODE_MAX_CELLS :: int where
  "LEAF_NODE_MAX_CELLS = LEAF_NODE_SPACE_FOR_CELLS div LEAF_NODE_CELL_SIZE"

definition LEAF_NODE_RIGHT_SPLIT_COUNT :: int where
  "LEAF_NODE_RIGHT_SPLIT_COUNT = (LEAF_NODE_MAX_CELLS + 1) div 2"
definition LEAF_NODE_LEFT_SPLIT_COUNT :: int where
  "LEAF_NODE_LEFT_SPLIT_COUNT = (LEAF_NODE_MAX_CELLS + 1) - LEAF_NODE_RIGHT_SPLIT_COUNT"

lemmas layout_defs =
  COLUMN_USERNAME_SIZE_def COLUMN_EMAIL_SIZE_def ROW_SIZE_def PAGE_SIZE_def
  TABLE_MAX_PAGES_def INVALID_PAGE_NUM_def NODE_TYPE_SIZE_def NODE_TYPE_OFFSET_def
  IS_ROOT_SIZE_def IS_ROOT_OFFSET_def PARENT_POINTER_SIZE_def PARENT_POINTER_OFFSET_def
  COMMON_NODE_HEADER_SIZE_def INTERNAL_NODE_NUM_KEYS_SIZE_def
  INTERNAL_NODE_NUM_KEYS_OFFSET_def INTERNAL_NODE_RIGHT_CHILD_SIZE_def
  INTERNAL_NODE_RIGHT_CHILD_OFFSET_def INTERNAL_NODE_HEADER_SIZE_def
  INTERNAL_NODE_KEY_SIZE_def INTERNAL_NODE_CHILD_SIZE_def INTERNAL_NODE_CELL_SIZE_def
  INTERNAL_NODE_MAX_KEYS_def LEAF_NODE_NUM_CELLS_SIZE_def LEAF_NODE_NUM_CELLS_OFFSET_def
  LEAF_NODE_NEXT_LEAF_SIZE_def LEAF_NODE_NEXT_LEAF_OFFSET_def LEAF_NODE_HEADER_SIZE_def
  LEAF_NODE_KEY_SIZE_def LEAF_NODE_KEY_OFFSET_def LEAF_NODE_VALUE_SIZE_def
  LEAF_NODE_VALUE_OFFSET_def LEAF_NODE_CELL_SIZE_def LEAF_NODE_SPACE_FOR_CELLS_def
  LEAF_NODE_MAX_CELLS_def LEAF_NODE_RIGHT_SPLIT_COUNT_def LEAF_NODE_LEFT_SPLIT_COUNT_def

section \<open>Enumerations and data objects (lines 62-100)\<close>

datatype NodeType = INTERNAL | LEAF
datatype PrepareResult =
  PREPARE_SUCCESS | NEGATIVE_ID | STRING_TOO_LONG | SYNTAX_ERROR | UNRECOGNIZED_STATEMENT
datatype ExecuteResult = EXECUTE_SUCCESS | TABLE_FULL | DUPLICATE_KEY
datatype StatementType = INSERT | SELECT

record Row =
  row_id :: int
  username :: string
  email :: string

record Statement =
  stmt_type :: "StatementType option"
  row_to_insert :: "Row option"

text \<open>What ends a call without a result: \<open>sys.exit(1)\<close> after a diagnostic, and the
  exceptions that the struct module, the codecs, the \<open>NodeType\<close> constructor and the
  interpreter's recursion limit raise. No function of the program catches any of them
  (only \<open>ValueError\<close> of \<open>int\<close> is caught, in \<open>prepare_statement\<close>).
  \<open>SeekError\<close> is what \<open>file.seek\<close> raises at a negative position, and
  \<open>Diverges\<close> stands for a \<open>while\<close> loop that never ends.\<close>

datatype error =
  SysExit int
  | StructError
  | UnicodeEncodeError
  | UnicodeDecodeError
  | ValueError
  | SeekError
  | RecursionError
  | Diverges

definition ebind :: "error + 'a \<Rightarrow> ('a \<Rightarrow> error + 'b) \<Rightarrow> error + 'b" where
  "ebind m f = (case m of Inl e \<Rightarrow> Inl e | Inr v \<Rightarrow> f v)"

section \<open>The library calls the program makes: slices and the struct module\<close>

text \<open>\<open>xs[a:b]\<close>: a negative bound counts from the end, and both bounds are clamped to
  the buffer.\<close>

definition slice_bound :: "'a list \<Rightarrow> int \<Rightarrow> nat" where
  "slice_bound xs i =
     (let n = int (length xs) in nat (if i < 0 then max 0 (i + n) else min i n))"

definition py_slice :: "'a list \<Rightarrow> int \<Rightarrow> int \<Rightarrow> 'a list" where
  "py_slice xs a b = take (slice_bound xs b - slice_bound xs a) (drop (slice_bound xs a) xs)"

text \<open>\<open>xs[a:b] = ys\<close> on a bytearray: the slice is replaced by \<open>ys\<close>, whatever its
  length.\<close>

definition py_slice_assign :: "'a list \<Rightarrow> int \<Rightarrow> int \<Rightarrow> 'a list \<Rightarrow> 'a list" where
  "py_slice_assign xs a b ys =
     take (slice_bound xs a) xs @ ys @ drop (max (slice_bound xs a) (slice_bound xs b)) xs"

text \<open>Little-endian unsigned integers.\<close>

definition le_bytes :: "nat \<Rightarrow> int \<Rightarrow> bytes" where
  "le_bytes n v = map (\<lambda>i. word_of_int (v div 256 ^ i)) [0..<n]"

definition le_int :: "bytes \<Rightarrow> int" where
  "le_int bs = foldr (\<lambda>b acc. uint b + 256 * acc) bs 0"

text \<open>\<open>struct.unpack_from\<close> and \<open>struct.pack_into\<close> accept a negative offset, counted
  from the end of the buffer, and raise \<open>struct.error\<close> when the field does not lie
  inside the buffer or the value does not fit the field.\<close>

definition struct_offset :: "bytes \<Rightarrow> int \<Rightarrow> int \<Rightarrow> error + nat" where
  "struct_offset buf offset width =
     (let n = int (length buf); off = (if offset < 0 then offset + n else offset)
      in if off < 0 \<or> n - off < width then Inl StructError else Inr (nat off))"

definition unpack_from_uint :: "nat \<Rightarrow> bytes \<Rightarrow> int \<Rightarrow> error + int" where
  "unpack_from_uint width buf offset =
     ebind (struct_offset buf offset (int width))
       (\<lambda>off. Inr (le_int (take width (drop off buf))))"

definition write_at :: "bytes \<Rightarrow> nat \<Rightarrow> bytes \<Rightarrow> bytes" where
  "write_at buf off bs = take off buf @ bs @ drop (off + length bs) buf"

definition pack_into_uint :: "nat \<Rightarrow> bytes \<Rightarrow> int \<Rightarrow> int \<Rightarrow> error + bytes" where
  "pack_into_uint width buf offset v =
     (if v < 0 \<or> 256 ^ width \<le> v then Inl StructError
      else ebind (struct_offset buf offset (int width))
             (\<lambda>off. Inr (write_at buf off (le_bytes width v))))"

text \<open>The \<open>s\<close> format of \<open>struct.pack\<close>: the byte string is truncated or padded with
  NUL bytes to the field's width.\<close>

definition pad_field :: "int \<Rightarrow> bytes \<Rightarrow> bytes" where
  "pad_field w bs = take (nat w) bs @ replicate (nat w - length bs) 0"

section \<open>Serialization (lines 177-189)\<close>

definition encode_ascii :: "string \<Rightarrow> error + bytes" where
  "encode_ascii s =
     (if \<forall>c \<in> set s. (of_char c :: int) < 128
      then Inr (map (\<lambda>c. word_of_int (of_char c)) s) else Inl UnicodeEncodeError)"

definition decode_ascii :: "bytes \<Rightarrow> error + string" where
  "decode_ascii bs =
     (if \<forall>b \<in> set bs. uint b < 128
      then Inr (map (\<lambda>b. char_of (uint b)) bs) else Inl UnicodeDecodeError)"

definition rstrip_nul :: "string \<Rightarrow> string" where
  "rstrip_nul s = rev (dropWhile (\<lambda>c. c = CHR 0x00) (rev s))"

text \<open>\<open>struct.pack_into('<I32s255s', page, offset, id, username, email)\<close>.\<close>

definition pack_into_row :: "bytes \<Rightarrow> int \<Rightarrow> int \<Rightarrow> bytes \<Rightarrow> bytes \<Rightarrow> error + bytes" where
  "pack_into_row buf offset i u e =
     (if i < 0 \<or> 256 ^ 4 \<le> i then Inl StructError
      else ebind (struct_offset buf offset ROW_SIZE)
             (\<lambda>off. Inr (write_at buf off
                (le_bytes 4 i @ pad_field COLUMN_USERNAME_SIZE u @ pad_field COLUMN_EMAIL_SIZE e))))"

definition serialize_row :: "Row \<Rightarrow> bytes \<Rightarrow> int \<Rightarrow> error + bytes" where
  "serialize_row row page offset =
     ebind (encode_ascii (username row)) (\<lambda>username_bytes.
     ebind (encode_ascii (email row)) (\<lambda>email_bytes.
       pack_into_row page offset (row_id row) username_bytes email_bytes))"

text \<open>\<open>struct.unpack('<I32s255s', data)\<close> needs a buffer of exactly \<open>ROW_SIZE\<close> bytes.\<close>

definition unpack_row :: "bytes \<Rightarrow> error + (int \<times> bytes \<times> bytes)" where
  "unpack_row data =
     (if int (length data) \<noteq> ROW_SIZE then Inl StructError
      else Inr (le_int (take 4 data),
                take (nat COLUMN_USERNAME_SIZE) (drop 4 data),
                take (nat COLUMN_EMAIL_SIZE) (drop (4 + nat COLUMN_USERNAME_SIZE) data)))"

definition deserialize_row :: "bytes \<Rightarrow> error + Row" where
  "deserialize_row data =
     ebind (unpack_row data) (\<lambda>(i, u, e).
     ebind (decode_ascii u) (\<lambda>us.
     ebind (decode_ascii e) (\<lambda>es.
       Inr \<lparr>row_id = i, username = rstrip_nul us, email = rstrip_nul es\<rparr>)))"


section \<open>Pager (lines 102-148)\<close>

text \<open>The pager's state: the contents of the database file, the page count and the
  cache, a dictionary from page numbers to bytearrays. A bytearray handed out by
  \<open>get_page\<close> is the object kept in the cache, so the model names it by its page number
  and reads and writes it in the cache.\<close>

record Pager =
  file_contents :: bytes
  num_pages :: int
  pages :: "int \<rightharpoonup> bytes"

text \<open>\<open>Pager.__init__\<close>, from the contents of the file (empty when it was just created).\<close>

definition pager_init :: "bytes \<Rightarrow> error + Pager" where
  "pager_init contents =
     (let file_length = int (length contents)
      in if file_length mod PAGE_SIZE \<noteq> 0 then Inl (SysExit 1)
         else Inr \<lparr>file_contents = contents, num_pages = file_length div PAGE_SIZE, pages = Map.empty\<rparr>)"

text \<open>\<open>file.seek(pos); file.read(n)\<close>\<close>

definition file_read :: "bytes \<Rightarrow> int \<Rightarrow> int \<Rightarrow> error + bytes" where
  "file_read f pos n = (if pos < 0 then Inl SeekError else Inr (take (nat n) (drop (nat pos) f)))"

text \<open>\<open>file.seek(pos); file.write(buf)\<close>: a gap after the end of the file reads as zeroes.\<close>

definition file_write :: "bytes \<Rightarrow> int \<Rightarrow> bytes \<Rightarrow> error + bytes" where
  "file_write f pos buf =
     (if pos < 0 then Inl SeekError
      else Inr (write_at (f @ replicate (nat pos - length f) 0) (nat pos) buf))"

definition get_page :: "Pager \<Rightarrow> int \<Rightarrow> error + (bytes \<times> Pager)" where
  "get_page p page_num =
     (if page_num > TABLE_MAX_PAGES then Inl (SysExit 1)
      else case pages p page_num of
        Some page \<Rightarrow> Inr (page, p)
      | None \<Rightarrow>
          ebind (if page_num < num_pages p
                 then ebind (file_read (file_contents p) (page_num * PAGE_SIZE) PAGE_SIZE)
                        (\<lambda>bytes_read. Inr (py_slice_assign (replicate (nat PAGE_SIZE) 0) 0
                                             (int (length bytes_read)) bytes_read))
                 else Inr (replicate (nat PAGE_SIZE) 0))
            (\<lambda>page.
               let p1 = p\<lparr>pages := (pages p)(page_num \<mapsto> page)\<rparr>;
                   p2 = (if page_num \<ge> num_pages p1 then p1\<lparr>num_pages := page_num + 1\<rparr> else p1)
               in Inr (page, p2)))"

definition flush :: "Pager \<Rightarrow> int \<Rightarrow> error + Pager" where
  "flush p page_num =
     (case pages p page_num of
        None \<Rightarrow> Inl (SysExit 1)
      | Some page \<Rightarrow>
          ebind (file_write (file_contents p) (page_num * PAGE_SIZE) page) (\<lambda>f. Inr (p\<lparr>file_contents := f\<rparr>)))"

definition get_unused_page_num :: "Pager \<Rightarrow> int" where
  "get_unused_page_num p = num_pages p"

section \<open>Node accessors (lines 193-304)\<close>

definition get_node_type :: "bytes \<Rightarrow> error + NodeType" where
  "get_node_type node =
     ebind (unpack_from_uint 1 node NODE_TYPE_OFFSET)
       (\<lambda>v. if v = 0 then Inr INTERNAL else if v = 1 then Inr LEAF else Inl ValueError)"

definition set_node_type :: "bytes \<Rightarrow> NodeType \<Rightarrow> error + bytes" where
  "set_node_type node node_type =
     pack_into_uint 1 node NODE_TYPE_OFFSET (case node_type of INTERNAL \<Rightarrow> 0 | LEAF \<Rightarrow> 1)"

definition is_node_root :: "bytes \<Rightarrow> error + bool" where
  "is_node_root node = ebind (unpack_from_uint 1 node IS_ROOT_OFFSET) (\<lambda>v. Inr (v \<noteq> 0))"

definition set_node_root :: "bytes \<Rightarrow> bool \<Rightarrow> error + bytes" where
  "set_node_root node is_root = pack_into_uint 1 node IS_ROOT_OFFSET (if is_root then 1 else 0)"

definition node_parent :: "bytes \<Rightarrow> error + int" where
  "node_parent node = unpack_from_uint 4 node PARENT_POINTER_OFFSET"

definition set_node_parent :: "bytes \<Rightarrow> int \<Rightarrow> error + bytes" where
  "set_node_parent node parent_page_num = pack_into_uint 4 node PARENT_POINTER_OFFSET parent_page_num"

definition leaf_node_num_cells :: "bytes \<Rightarrow> error + int" where
  "leaf_node_num_cells node = unpack_from_uint 4 node LEAF_NODE_NUM_CELLS_OFFSET"

definition set_leaf_node_num_cells :: "bytes \<Rightarrow> int \<Rightarrow> error + bytes" where
  "set_leaf_node_num_cells node num = pack_into_uint 4 node LEAF_NODE_NUM_CELLS_OFFSET num"

definition leaf_node_next_leaf :: "bytes \<Rightarrow> error + int" where
  "leaf_node_next_leaf node = unpack_from_uint 4 node LEAF_NODE_NEXT_LEAF_OFFSET"

definition set_leaf_node_next_leaf :: "bytes \<Rightarrow> int \<Rightarrow> error + bytes" where
  "set_leaf_node_next_leaf node next_leaf = pack_into_uint 4 node LEAF_NODE_NEXT_LEAF_OFFSET next_leaf"

definition initialize_leaf_node :: "bytes \<Rightarrow> error + bytes" where
  "initialize_leaf_node node =
     ebind (set_node_type node LEAF) (\<lambda>node.
     ebind (set_node_root node False) (\<lambda>node.
     ebind (set_leaf_node_num_cells node 0) (\<lambda>node.
       set_leaf_node_next_leaf node 0)))"

definition leaf_node_cell_offset :: "int \<Rightarrow> int" where
  "leaf_node_cell_offset cell_num = LEAF_NODE_HEADER_SIZE + cell_num * LEAF_NODE_CELL_SIZE"

definition leaf_node_key :: "bytes \<Rightarrow> int \<Rightarrow> error + int" where
  "leaf_node_key node cell_num = unpack_from_uint 4 node (leaf_node_cell_offset cell_num)"

definition set_leaf_node_key :: "bytes \<Rightarrow> int \<Rightarrow> int \<Rightarrow> error + bytes" where
  "set_leaf_node_key node cell_num key = pack_into_uint 4 node (leaf_node_cell_offset cell_num) key"

definition leaf_node_value_offset :: "int \<Rightarrow> int" where
  "leaf_node_value_offset cell_num = leaf_node_cell_offset cell_num + LEAF_NODE_KEY_SIZE"

definition internal_node_num_keys :: "bytes \<Rightarrow> error + int" where
  "internal_node_num_keys node = unpack_from_uint 4 node INTERNAL_NODE_NUM_KEYS_OFFSET"

definition set_internal_node_num_keys :: "bytes \<Rightarrow> int \<Rightarrow> error + bytes" where
  "set_internal_node_num_keys node num = pack_into_uint 4 node INTERNAL_NODE_NUM_KEYS_OFFSET num"

definition internal_node_right_child :: "bytes \<Rightarrow> error + int" where
  "internal_node_right_child node = unpack_from_uint 4 node INTERNAL_NODE_RIGHT_CHILD_OFFSET"

definition set_internal_node_right_child :: "bytes \<Rightarrow> int \<Rightarrow> error + bytes" where
  "set_internal_node_right_child node right_child =
     pack_into_uint 4 node INTERNAL_NODE_RIGHT_CHILD_OFFSET right_child"

definition initialize_internal_node :: "bytes \<Rightarrow> error + bytes" where
  "initialize_internal_node node =
     ebind (set_node_type node INTERNAL) (\<lambda>node.
     ebind (set_node_root node False) (\<lambda>node.
     ebind (set_internal_node_num_keys node 0) (\<lambda>node.
       set_internal_node_right_child node INVALID_PAGE_NUM)))"

definition internal_node_cell_offset :: "int \<Rightarrow> int" where
  "internal_node_cell_offset cell_num = INTERNAL_NODE_HEADER_SIZE + cell_num * INTERNAL_NODE_CELL_SIZE"

definition internal_node_child :: "bytes \<Rightarrow> int \<Rightarrow> error + int" where
  "internal_node_child node child_num =
     ebind (internal_node_num_keys node) (\<lambda>num_keys.
       if child_num > num_keys then Inl (SysExit 1)
       else if child_num = num_keys then internal_node_right_child node
       else unpack_from_uint 4 node (internal_node_cell_offset child_num))"

definition set_internal_node_child :: "bytes \<Rightarrow> int \<Rightarrow> int \<Rightarrow> error + bytes" where
  "set_internal_node_child node child_num child_page_num =
     ebind (internal_node_num_keys node) (\<lambda>num_keys.
       if child_num = num_keys then set_internal_node_right_child node child_page_num
       else pack_into_uint 4 node (internal_node_cell_offset child_num) child_page_num)"

definition internal_node_key :: "bytes \<Rightarrow> int \<Rightarrow> error + int" where
  "internal_node_key node key_num =
     unpack_from_uint 4 node (internal_node_cell_offset key_num + INTERNAL_NODE_CHILD_SIZE)"

definition set_internal_node_key :: "bytes \<Rightarrow> int \<Rightarrow> int \<Rightarrow> error + bytes" where
  "set_internal_node_key node key_num key =
     pack_into_uint 4 node (internal_node_cell_offset key_num + INTERNAL_NODE_CHILD_SIZE) key"


section \<open>Table and cursor (lines 150-173)\<close>

text \<open>A \<open>Table\<close> holds its pager and \<open>root_page_num\<close>, which \<open>__init__\<close> sets to 0 and
  nothing changes afterwards: the model identifies the table with its pager. The
  functions of lines 500-565 reach the table through the module-level name \<open>table\<close>,
  which the main program binds to the one table that exists.\<close>

type_synonym Table = Pager

definition root_page_num :: "Table \<Rightarrow> int" where
  "root_page_num t = 0"

record Cursor =
  cursor_page_num :: int
  cursor_cell_num :: int
  end_of_table :: bool

text \<open>\<open>table.pager.get_page(n)\<close>, for a variable that keeps the bytearray: the model
  keeps the page number and looks the bytearray up in the cache (\<open>node_at\<close>) wherever
  the source reads the variable, and replaces it there (\<open>update_node\<close>) wherever the
  source writes through it.\<close>

definition table_get_page :: "Table \<Rightarrow> int \<Rightarrow> error + Table" where
  "table_get_page t n = ebind (get_page t n) (\<lambda>(page, t'). Inr t')"

definition node_at :: "Table \<Rightarrow> int \<Rightarrow> bytes" where
  "node_at t n = (case pages t n of Some page \<Rightarrow> page | None \<Rightarrow> [])"

definition update_node :: "Table \<Rightarrow> int \<Rightarrow> (bytes \<Rightarrow> error + bytes) \<Rightarrow> error + Table" where
  "update_node t n f = ebind (f (node_at t n)) (\<lambda>page. Inr (t\<lparr>pages := (pages t)(n \<mapsto> page)\<rparr>))"

text \<open>A \<open>for\<close> loop over a list of indices, stopping at the first error.\<close>

fun for_each :: "'i list \<Rightarrow> ('i \<Rightarrow> 's \<Rightarrow> error + 's) \<Rightarrow> 's \<Rightarrow> error + 's" where
  "for_each [] body s = Inr s"
| "for_each (i # is) body s = ebind (body i s) (for_each is body)"

text \<open>\<open>range(n)\<close> and \<open>range(a, b, -1)\<close>\<close>

definition py_range :: "int \<Rightarrow> int list" where
  "py_range n = [0..n - 1]"

definition py_range_down :: "int \<Rightarrow> int \<Rightarrow> int list" where
  "py_range_down a b = rev [b + 1..a]"

definition table_init :: "bytes \<Rightarrow> error + Table" where
  "table_init contents =
     ebind (pager_init contents) (\<lambda>t.
       if num_pages t = 0
       then ebind (table_get_page t 0) (\<lambda>t.
            ebind (update_node t 0 initialize_leaf_node) (\<lambda>t.
              update_node t 0 (\<lambda>root_node. set_node_root root_node True)))
       else Inr t)"

definition table_close :: "Table \<Rightarrow> error + Table" where
  "table_close t =
     for_each (py_range (num_pages t))
       (\<lambda>i t. if pages t i \<noteq> None
              then ebind (flush t i) (\<lambda>t. Inr (t\<lparr>pages := (pages t)(i := None)\<rparr>))
              else Inr t) t"

section \<open>B-tree logic (lines 308-565)\<close>

partial_function (option) find_child_loop :: "bytes \<Rightarrow> int \<Rightarrow> int \<Rightarrow> int \<Rightarrow> (error + int) option" where
  "find_child_loop node key min_idx max_idx =
     (if min_idx \<noteq> max_idx
      then (case internal_node_key node ((min_idx + max_idx) div 2) of
              Inl e \<Rightarrow> Some (Inl e)
            | Inr key_to_right \<Rightarrow>
                if key_to_right \<ge> key
                then find_child_loop node key min_idx ((min_idx + max_idx) div 2)
                else find_child_loop node key ((min_idx + max_idx) div 2 + 1) max_idx)
      else Some (Inr min_idx))"

declare find_child_loop.simps [code]

definition internal_node_find_child :: "bytes \<Rightarrow> int \<Rightarrow> error + int" where
  "internal_node_find_child node key =
     ebind (internal_node_num_keys node) (\<lambda>num_keys.
       case find_child_loop node key 0 num_keys of None \<Rightarrow> Inl Diverges | Some r \<Rightarrow> r)"

partial_function (option) leaf_find_loop :: "bytes \<Rightarrow> int \<Rightarrow> int \<Rightarrow> int \<Rightarrow> (error + int) option" where
  "leaf_find_loop node key min_idx one_past_max =
     (if one_past_max \<noteq> min_idx
      then (case leaf_node_key node ((min_idx + one_past_max) div 2) of
              Inl e \<Rightarrow> Some (Inl e)
            | Inr key_at_index \<Rightarrow>
                if key = key_at_index then Some (Inr ((min_idx + one_past_max) div 2))
                else if key < key_at_index
                then leaf_find_loop node key min_idx ((min_idx + one_past_max) div 2)
                else leaf_find_loop node key ((min_idx + one_past_max) div 2 + 1) one_past_max)
      else Some (Inr min_idx))"

declare leaf_find_loop.simps [code]

definition leaf_node_find :: "Table \<Rightarrow> int \<Rightarrow> int \<Rightarrow> error + (Cursor \<times> Table)" where
  "leaf_node_find t page_num key =
     ebind (table_get_page t page_num) (\<lambda>t.
     ebind (leaf_node_num_cells (node_at t page_num)) (\<lambda>num_cells.
     ebind (case leaf_find_loop (node_at t page_num) key 0 num_cells of
              None \<Rightarrow> Inl Diverges | Some r \<Rightarrow> r) (\<lambda>cell.
       Inr (\<lparr>cursor_page_num = page_num, cursor_cell_num = cell, end_of_table = False\<rparr>, t))))"

text \<open>The recursive functions take the depth that is left to them as their first
  argument: a call at depth 0 raises \<open>RecursionError\<close>, as the interpreter does at its
  recursion limit. Only a call that closes a cycle of the call graph uses the depth up;
  the functions that call them pass the depth on.\<close>

fun get_node_max_key :: "nat \<Rightarrow> Pager \<Rightarrow> int \<Rightarrow> error + (int \<times> Pager)" where
  "get_node_max_key 0 pager node = Inl RecursionError"
| "get_node_max_key (Suc d) pager node =
     ebind (get_node_type (node_at pager node)) (\<lambda>ty.
       if ty = LEAF
       then ebind (leaf_node_num_cells (node_at pager node)) (\<lambda>num_cells.
            ebind (leaf_node_key (node_at pager node) (num_cells - 1)) (\<lambda>k. Inr (k, pager)))
       else ebind (internal_node_right_child (node_at pager node)) (\<lambda>right_child_page.
            ebind (table_get_page pager right_child_page) (\<lambda>pager.
              get_node_max_key d pager right_child_page)))"

fun internal_node_find :: "nat \<Rightarrow> Table \<Rightarrow> int \<Rightarrow> int \<Rightarrow> error + (Cursor \<times> Table)" where
  "internal_node_find 0 t page_num key = Inl RecursionError"
| "internal_node_find (Suc d) t page_num key =
     ebind (table_get_page t page_num) (\<lambda>t.
     ebind (internal_node_find_child (node_at t page_num) key) (\<lambda>child_index.
     ebind (internal_node_child (node_at t page_num) child_index) (\<lambda>child_num.
     ebind (table_get_page t child_num) (\<lambda>t.
     ebind (get_node_type (node_at t child_num)) (\<lambda>ty.
       if ty = LEAF then leaf_node_find t child_num key
       else internal_node_find d t child_num key)))))"

definition table_find :: "nat \<Rightarrow> Table \<Rightarrow> int \<Rightarrow> error + (Cursor \<times> Table)" where
  "table_find d t key =
     ebind (table_get_page t (root_page_num t)) (\<lambda>t.
     ebind (get_node_type (node_at t (root_page_num t))) (\<lambda>ty.
       if ty = LEAF then leaf_node_find t (root_page_num t) key
       else internal_node_find d t (root_page_num t) key))"

definition create_new_root :: "nat \<Rightarrow> Table \<Rightarrow> int \<Rightarrow> error + Table" where
  "create_new_root d t right_child_page_num =
     ebind (table_get_page t (root_page_num t)) (\<lambda>t. let root = root_page_num t in
     ebind (table_get_page t right_child_page_num) (\<lambda>t. let right_child = right_child_page_num in
     let left_child_page_num = get_unused_page_num t in
     ebind (table_get_page t left_child_page_num) (\<lambda>t. let left_child = left_child_page_num in
     ebind (get_node_type (node_at t root)) (\<lambda>root_type.
     ebind (if root_type = INTERNAL
            then ebind (update_node t right_child initialize_internal_node) (\<lambda>t.
                   update_node t left_child initialize_internal_node)
            else Inr t) (\<lambda>t.
     ebind (update_node t left_child (\<lambda>node. Inr (py_slice_assign node 0 (int (length node))
                                                   (py_slice (node_at t root) 0 (int (length (node_at t root))))))) (\<lambda>t.
     ebind (update_node t left_child (\<lambda>node. set_node_root node False)) (\<lambda>t.
     ebind (get_node_type (node_at t left_child)) (\<lambda>left_type.
     ebind (if left_type = INTERNAL
            then ebind (internal_node_num_keys (node_at t left_child)) (\<lambda>num_keys.
                 ebind (for_each (py_range num_keys) (\<lambda>i t.
                          ebind (internal_node_child (node_at t left_child) i) (\<lambda>child_page_num.
                          ebind (table_get_page t child_page_num) (\<lambda>t.
                            update_node t child_page_num
                              (\<lambda>child_node. set_node_parent child_node left_child_page_num)))) t) (\<lambda>t.
                 ebind (internal_node_right_child (node_at t left_child)) (\<lambda>right_child_of_left.
                 ebind (table_get_page t right_child_of_left) (\<lambda>t.
                   update_node t right_child_of_left
                     (\<lambda>child_node. set_node_parent child_node left_child_page_num)))))
            else Inr t) (\<lambda>t.
     ebind (update_node t root initialize_internal_node) (\<lambda>t.
     ebind (update_node t root (\<lambda>node. set_node_root node True)) (\<lambda>t.
     ebind (update_node t root (\<lambda>node. set_internal_node_num_keys node 1)) (\<lambda>t.
     ebind (update_node t root (\<lambda>node. set_internal_node_child node 0 left_child_page_num)) (\<lambda>t.
     ebind (get_node_max_key d t left_child) (\<lambda>(left_child_max, t).
     ebind (update_node t root (\<lambda>node. set_internal_node_key node 0 left_child_max)) (\<lambda>t.
     ebind (update_node t root (\<lambda>node. set_internal_node_right_child node right_child_page_num)) (\<lambda>t.
     ebind (update_node t left_child (\<lambda>node. set_node_parent node (root_page_num t))) (\<lambda>t.
       update_node t right_child (\<lambda>node. set_node_parent node (root_page_num t)))))))))))))))))))"

definition update_internal_node_key :: "bytes \<Rightarrow> int \<Rightarrow> int \<Rightarrow> error + bytes" where
  "update_internal_node_key node old_key new_key =
     ebind (internal_node_find_child node old_key) (\<lambda>old_child_index.
       set_internal_node_key node old_child_index new_key)"


text \<open>Copying one internal cell inside a node:
  \<open>parent[dest_off : dest_off + CELL] = parent[src_off : src_off + CELL]\<close>.\<close>

definition copy_internal_cell :: "int \<Rightarrow> int \<Rightarrow> bytes \<Rightarrow> error + bytes" where
  "copy_internal_cell src_num dest_num parent =
     (let src_off = internal_node_cell_offset src_num;
          dest_off = internal_node_cell_offset dest_num
      in Inr (py_slice_assign parent dest_off (dest_off + INTERNAL_NODE_CELL_SIZE)
                (py_slice parent src_off (src_off + INTERNAL_NODE_CELL_SIZE))))"

fun internal_node_insert :: "nat \<Rightarrow> Table \<Rightarrow> int \<Rightarrow> int \<Rightarrow> error + Table"
  and internal_node_split_and_insert :: "nat \<Rightarrow> Table \<Rightarrow> int \<Rightarrow> int \<Rightarrow> error + Table" where
  "internal_node_insert 0 t parent_page_num child_page_num = Inl RecursionError"
| "internal_node_insert (Suc d) t parent_page_num child_page_num =
     ebind (table_get_page t parent_page_num) (\<lambda>t. let parent = parent_page_num in
     ebind (table_get_page t child_page_num) (\<lambda>t. let child = child_page_num in
     ebind (get_node_max_key (Suc d) t child) (\<lambda>(child_max_key, t).
     ebind (internal_node_find_child (node_at t parent) child_max_key) (\<lambda>index.
     ebind (internal_node_num_keys (node_at t parent)) (\<lambda>original_num_keys.
       if original_num_keys \<ge> INTERNAL_NODE_MAX_KEYS
       then internal_node_split_and_insert d t parent_page_num child_page_num
       else
     ebind (internal_node_right_child (node_at t parent)) (\<lambda>right_child_page_num.
       if right_child_page_num = INVALID_PAGE_NUM
       then update_node t parent (\<lambda>node. set_internal_node_right_child node child_page_num)
       else
     ebind (table_get_page t right_child_page_num) (\<lambda>t. let right_child = right_child_page_num in
     ebind (update_node t parent (\<lambda>node. set_internal_node_num_keys node (original_num_keys + 1))) (\<lambda>t.
     ebind (get_node_max_key (Suc d) t right_child) (\<lambda>(right_max, t).
       if child_max_key > right_max
       then
         ebind (update_node t parent
                  (\<lambda>node. set_internal_node_child node original_num_keys right_child_page_num)) (\<lambda>t.
         ebind (get_node_max_key (Suc d) t right_child) (\<lambda>(right_max, t).
         ebind (update_node t parent
                  (\<lambda>node. set_internal_node_key node original_num_keys right_max)) (\<lambda>t.
           update_node t parent (\<lambda>node. set_internal_node_right_child node child_page_num))))
       else
         ebind (for_each (py_range_down original_num_keys index)
                  (\<lambda>i t. update_node t parent (copy_internal_cell (i - 1) i)) t) (\<lambda>t.
         ebind (update_node t parent (\<lambda>node. set_internal_node_child node index child_page_num)) (\<lambda>t.
           update_node t parent (\<lambda>node. set_internal_node_key node index child_max_key))))))))))))"
| "internal_node_split_and_insert 0 t parent_page_num child_page_num = Inl RecursionError"
| "internal_node_split_and_insert (Suc d) t parent_page_num child_page_num =
     ebind (table_get_page t parent_page_num) (\<lambda>t.
     ebind (get_node_max_key (Suc d) t parent_page_num) (\<lambda>(old_max, t).
     ebind (table_get_page t child_page_num) (\<lambda>t. let child = child_page_num in
     ebind (get_node_max_key (Suc d) t child) (\<lambda>(child_max, t).
     let new_page_num = get_unused_page_num t in
     ebind (is_node_root (node_at t parent_page_num)) (\<lambda>splitting_root.
     ebind (if splitting_root
            then ebind (create_new_root (Suc d) t new_page_num) (\<lambda>t.
                 ebind (table_get_page t (root_page_num t)) (\<lambda>t.
                 ebind (internal_node_child (node_at t (root_page_num t)) 0) (\<lambda>old_page_num.
                 ebind (table_get_page t old_page_num) (\<lambda>t.
                   Inr (root_page_num t, old_page_num, t)))))
            else ebind (node_parent (node_at t parent_page_num)) (\<lambda>parent.
                 ebind (table_get_page t parent) (\<lambda>t.
                 ebind (table_get_page t new_page_num) (\<lambda>t.
                 ebind (update_node t new_page_num initialize_internal_node) (\<lambda>t.
                   Inr (parent, parent_page_num, t)))))) (\<lambda>(parent, old_page_num, t).
     let old_node = old_page_num in
     ebind (internal_node_num_keys (node_at t old_node)) (\<lambda>old_num_keys.
     ebind (internal_node_right_child (node_at t old_node)) (\<lambda>cur_page_num.
     ebind (table_get_page t cur_page_num) (\<lambda>t.
     ebind (internal_node_insert d t new_page_num cur_page_num) (\<lambda>t.
     ebind (update_node t cur_page_num (\<lambda>cur. set_node_parent cur new_page_num)) (\<lambda>t.
     ebind (update_node t old_node (\<lambda>node. set_internal_node_right_child node INVALID_PAGE_NUM)) (\<lambda>t.
     ebind (for_each (py_range_down (INTERNAL_NODE_MAX_KEYS - 1) (INTERNAL_NODE_MAX_KEYS div 2))
              (\<lambda>i (old_num_keys, t).
                 ebind (internal_node_child (node_at t old_node) i) (\<lambda>cur_page_num.
                 ebind (table_get_page t cur_page_num) (\<lambda>t.
                 ebind (internal_node_insert d t new_page_num cur_page_num) (\<lambda>t.
                 ebind (update_node t cur_page_num (\<lambda>cur. set_node_parent cur new_page_num)) (\<lambda>t.
                 ebind (update_node t old_node
                          (\<lambda>node. set_internal_node_num_keys node (old_num_keys - 1))) (\<lambda>t.
                   Inr (old_num_keys - 1, t)))))))
              (old_num_keys, t)) (\<lambda>(old_num_keys, t).
     ebind (internal_node_child (node_at t old_node) (old_num_keys - 1)) (\<lambda>last_child.
     ebind (update_node t old_node (\<lambda>node. set_internal_node_right_child node last_child)) (\<lambda>t.
     ebind (update_node t old_node (\<lambda>node. set_internal_node_num_keys node (old_num_keys - 1))) (\<lambda>t.
     ebind (get_node_max_key (Suc d) t old_node) (\<lambda>(max_after_split, t).
     let dest_page_num = (if child_max < max_after_split then old_page_num else new_page_num) in
     ebind (internal_node_insert d t dest_page_num child_page_num) (\<lambda>t.
     ebind (update_node t child (\<lambda>node. set_node_parent node dest_page_num)) (\<lambda>t.
     ebind (get_node_max_key (Suc d) t old_node) (\<lambda>(new_old_max, t).
     ebind (update_node t parent (\<lambda>node. update_internal_node_key node old_max new_old_max)) (\<lambda>t.
       if \<not> splitting_root
       then ebind (node_parent (node_at t old_node)) (\<lambda>old_parent.
            ebind (internal_node_insert d t old_parent new_page_num) (\<lambda>t.
            ebind (table_get_page t new_page_num) (\<lambda>t.
            ebind (node_parent (node_at t old_node)) (\<lambda>old_parent.
              update_node t new_page_num (\<lambda>new_node. set_node_parent new_node old_parent)))))
       else Inr t)))))))))))))))))))))"


text \<open>Copying one leaf cell from the old node into the destination node:
  \<open>chunk = old_node[src_off : src_off + CELL]; destination_node[dest_off : dest_off + CELL] = chunk\<close>.\<close>

definition copy_leaf_cell :: "bytes \<Rightarrow> int \<Rightarrow> int \<Rightarrow> bytes \<Rightarrow> error + bytes" where
  "copy_leaf_cell old_node src_off dest_off destination_node =
     (let chunk = py_slice old_node src_off (src_off + LEAF_NODE_CELL_SIZE)
      in Inr (py_slice_assign destination_node dest_off (dest_off + LEAF_NODE_CELL_SIZE) chunk))"

text \<open>\<open>leaf_node_split_and_insert\<close> in three parts: the body of its \<open>for\<close> loop
  (lines 514-533), the function up to the new cell counts (lines 501-536), and the
  update of the parent (lines 538-546).\<close>

definition leaf_split_move :: "Cursor \<Rightarrow> int \<Rightarrow> Row \<Rightarrow> int \<Rightarrow> int \<Rightarrow> int \<Rightarrow> Table \<Rightarrow> error + Table" where
  "leaf_split_move cursor key val old_node new_node i t =
     (let destination_node = (if i \<ge> LEAF_NODE_LEFT_SPLIT_COUNT then new_node else old_node);
          index_within = i mod LEAF_NODE_LEFT_SPLIT_COUNT;
          dest_off = leaf_node_cell_offset index_within
      in if i = cursor_cell_num cursor
         then ebind (update_node t destination_node
                       (\<lambda>node. pack_into_uint 4 node dest_off key)) (\<lambda>t.
                update_node t destination_node
                  (\<lambda>node. serialize_row val node (dest_off + LEAF_NODE_KEY_SIZE)))
         else if i > cursor_cell_num cursor
         then update_node t destination_node
                (copy_leaf_cell (node_at t old_node) (leaf_node_cell_offset (i - 1)) dest_off)
         else update_node t destination_node
                (copy_leaf_cell (node_at t old_node) (leaf_node_cell_offset i) dest_off))"

definition leaf_node_split_cells ::
    "nat \<Rightarrow> Table \<Rightarrow> Cursor \<Rightarrow> int \<Rightarrow> Row \<Rightarrow> error + (int \<times> int \<times> Table)" where
  "leaf_node_split_cells d t cursor key val =
     ebind (table_get_page t (cursor_page_num cursor)) (\<lambda>t. let old_node = cursor_page_num cursor in
     ebind (get_node_max_key d t old_node) (\<lambda>(old_max, t).
     let new_page_num = get_unused_page_num t in
     ebind (table_get_page t new_page_num) (\<lambda>t. let new_node = new_page_num in
     ebind (update_node t new_node initialize_leaf_node) (\<lambda>t.
     ebind (node_parent (node_at t old_node)) (\<lambda>old_parent.
     ebind (update_node t new_node (\<lambda>node. set_node_parent node old_parent)) (\<lambda>t.
     ebind (leaf_node_next_leaf (node_at t old_node)) (\<lambda>old_next.
     ebind (update_node t new_node (\<lambda>node. set_leaf_node_next_leaf node old_next)) (\<lambda>t.
     ebind (update_node t old_node (\<lambda>node. set_leaf_node_next_leaf node new_page_num)) (\<lambda>t.
     ebind (for_each (py_range_down LEAF_NODE_MAX_CELLS (-1))
              (leaf_split_move cursor key val old_node new_node) t) (\<lambda>t.
     ebind (update_node t old_node (\<lambda>node. set_leaf_node_num_cells node LEAF_NODE_LEFT_SPLIT_COUNT)) (\<lambda>t.
     ebind (update_node t new_node (\<lambda>node. set_leaf_node_num_cells node LEAF_NODE_RIGHT_SPLIT_COUNT)) (\<lambda>t.
       Inr (old_max, new_page_num, t)))))))))))))"

definition leaf_node_split_and_insert :: "nat \<Rightarrow> Table \<Rightarrow> Cursor \<Rightarrow> int \<Rightarrow> Row \<Rightarrow> error + Table" where
  "leaf_node_split_and_insert d t cursor key val =
     ebind (leaf_node_split_cells d t cursor key val) (\<lambda>(old_max, new_page_num, t).
     let old_node = cursor_page_num cursor in
     ebind (is_node_root (node_at t old_node)) (\<lambda>old_is_root.
       if old_is_root then create_new_root d t new_page_num
       else
     ebind (node_parent (node_at t old_node)) (\<lambda>parent_page_num.
     ebind (get_node_max_key d t old_node) (\<lambda>(new_max, t).
     ebind (table_get_page t parent_page_num) (\<lambda>t.
     ebind (update_node t parent_page_num (\<lambda>parent. update_internal_node_key parent old_max new_max)) (\<lambda>t.
       internal_node_insert d t parent_page_num new_page_num))))))"

definition copy_cell_right :: "int \<Rightarrow> bytes \<Rightarrow> error + bytes" where
  "copy_cell_right i node =
     (let src_off = leaf_node_cell_offset (i - 1);
          dest_off = leaf_node_cell_offset i
      in Inr (py_slice_assign node dest_off (dest_off + LEAF_NODE_CELL_SIZE)
                (py_slice node src_off (src_off + LEAF_NODE_CELL_SIZE))))"

definition leaf_node_insert :: "nat \<Rightarrow> Table \<Rightarrow> Cursor \<Rightarrow> int \<Rightarrow> Row \<Rightarrow> error + Table" where
  "leaf_node_insert d t cursor key val =
     ebind (table_get_page t (cursor_page_num cursor)) (\<lambda>t. let node = cursor_page_num cursor in
     ebind (leaf_node_num_cells (node_at t node)) (\<lambda>num_cells.
       if num_cells \<ge> LEAF_NODE_MAX_CELLS then leaf_node_split_and_insert d t cursor key val
       else
     ebind (if cursor_cell_num cursor < num_cells
            then for_each (py_range_down num_cells (cursor_cell_num cursor))
                   (\<lambda>i t. update_node t node (copy_cell_right i)) t
            else Inr t) (\<lambda>t.
     ebind (update_node t node (\<lambda>node. set_leaf_node_num_cells node (num_cells + 1))) (\<lambda>t.
     ebind (update_node t node (\<lambda>node. set_leaf_node_key node (cursor_cell_num cursor) key)) (\<lambda>t.
       update_node t node
         (\<lambda>node. serialize_row val node (leaf_node_value_offset (cursor_cell_num cursor))))))))"

section \<open>Application logic (lines 569-610)\<close>

definition table_start :: "nat \<Rightarrow> Table \<Rightarrow> error + (Cursor \<times> Table)" where
  "table_start d t =
     ebind (table_find d t 0) (\<lambda>(cursor, t).
     ebind (table_get_page t (cursor_page_num cursor)) (\<lambda>t.
     ebind (leaf_node_num_cells (node_at t (cursor_page_num cursor))) (\<lambda>num_cells.
       Inr (cursor\<lparr>end_of_table := (num_cells = 0)\<rparr>, t))))"

definition cursor_advance :: "Table \<Rightarrow> Cursor \<Rightarrow> error + (Cursor \<times> Table)" where
  "cursor_advance t cursor =
     ebind (table_get_page t (cursor_page_num cursor)) (\<lambda>t. let node = cursor_page_num cursor in
     let cursor = cursor\<lparr>cursor_cell_num := cursor_cell_num cursor + 1\<rparr> in
     ebind (leaf_node_num_cells (node_at t node)) (\<lambda>num_cells.
       if cursor_cell_num cursor \<ge> num_cells
       then ebind (leaf_node_next_leaf (node_at t node)) (\<lambda>next_page.
              if next_page = 0 then Inr (cursor\<lparr>end_of_table := True\<rparr>, t)
              else Inr (cursor\<lparr>cursor_page_num := next_page, cursor_cell_num := 0\<rparr>, t))
       else Inr (cursor, t)))"

definition execute_insert :: "nat \<Rightarrow> Row \<Rightarrow> Table \<Rightarrow> error + (ExecuteResult \<times> Table)" where
  "execute_insert d row t =
     (let key = row_id row in
      ebind (table_find d t key) (\<lambda>(cursor, t).
      ebind (table_get_page t (cursor_page_num cursor)) (\<lambda>t. let node = cursor_page_num cursor in
      ebind (leaf_node_num_cells (node_at t node)) (\<lambda>num_cells.
      ebind (if cursor_cell_num cursor < num_cells
             then ebind (leaf_node_key (node_at t node) (cursor_cell_num cursor))
                    (\<lambda>key_at_index. Inr (key_at_index = key))
             else Inr False) (\<lambda>duplicate.
        if duplicate then Inr (DUPLICATE_KEY, t)
        else ebind (leaf_node_insert d t cursor key row) (\<lambda>t. Inr (EXECUTE_SUCCESS, t)))))))"

text \<open>\<open>execute_select\<close>: the rows it prints, in the order it prints them. Its
  \<open>while\<close> loop need not end; \<open>None\<close> is a run that prints without end.\<close>

partial_function (option) select_loop ::
    "Table \<Rightarrow> Cursor \<Rightarrow> Row list \<Rightarrow> (error + (Row list \<times> Table)) option" where
  "select_loop t cursor printed =
     (if \<not> end_of_table cursor
      then (case ebind (table_get_page t (cursor_page_num cursor)) (\<lambda>t.
                 ebind (deserialize_row
                          (py_slice (node_at t (cursor_page_num cursor))
                             (leaf_node_value_offset (cursor_cell_num cursor))
                             (leaf_node_value_offset (cursor_cell_num cursor) + ROW_SIZE))) (\<lambda>row.
                 ebind (cursor_advance t cursor) (\<lambda>(cursor, t). Inr (row, cursor, t)))) of
              Inl e \<Rightarrow> Some (Inl e)
            | Inr (row, cursor, t) \<Rightarrow> select_loop t cursor (printed @ [row]))
      else Some (Inr (printed, t)))"

declare select_loop.simps [code]

definition execute_select :: "nat \<Rightarrow> Table \<Rightarrow> error + (Row list \<times> Table)" where
  "execute_select d t =
     ebind (table_start d t) (\<lambda>(cursor, t).
       case select_loop t cursor [] of None \<Rightarrow> Inl Diverges | Some r \<Rightarrow> r)"

section \<open>The statement parser (lines 661-677)\<close>

text \<open>A line is a list of 8-bit characters. On these, \<open>str.split()\<close> separates at the
  characters for which \<open>str.isspace\<close> holds. \<open>int\<close> strips the white space that it knows
  (the ASCII white space and the characters 133 and 160, not the separators 28 to 31), then
  accepts an optional sign and decimal digits with single underscores between digits, and
  raises \<open>ValueError\<close> on everything else and on every literal of more than
  \<open>int_max_str_digits\<close> digits (4300, the default of the interpreter since CPython 3.11;
  the program does not change it).\<close>

definition is_space :: "char \<Rightarrow> bool" where
  "is_space c = (let n = (of_char c :: nat) in
     (9 \<le> n \<and> n \<le> 13) \<or> (28 \<le> n \<and> n \<le> 32) \<or> n = 133 \<or> n = 160)"

fun split_from :: "string \<Rightarrow> string \<Rightarrow> string list" where
  "split_from tok [] = (if tok = [] then [] else [rev tok])"
| "split_from tok (c # cs) =
     (if is_space c then (if tok = [] then split_from [] cs else rev tok # split_from [] cs)
      else split_from (c # tok) cs)"

definition py_split :: "string \<Rightarrow> string list" where
  "py_split s = split_from [] s"

definition startswith :: "string \<Rightarrow> string \<Rightarrow> bool" where
  "startswith s pre = (take (length pre) s = pre)"

definition is_digit :: "char \<Rightarrow> bool" where
  "is_digit c = (48 \<le> (of_char c :: nat) \<and> (of_char c :: nat) \<le> 57)"

fun digits_from :: "int \<Rightarrow> bool \<Rightarrow> string \<Rightarrow> int option" where
  "digits_from acc after_digit [] = (if after_digit then Some acc else None)"
| "digits_from acc after_digit (c # cs) =
     (if is_digit c then digits_from (10 * acc + (of_char c - 48)) True cs
      else if c = CHR ''_'' \<and> after_digit then digits_from acc False cs
      else None)"

definition is_int_space :: "char \<Rightarrow> bool" where
  "is_int_space c = (let n = (of_char c :: nat) in
     (9 \<le> n \<and> n \<le> 13) \<or> n = 32 \<or> n = 133 \<or> n = 160)"

definition py_strip :: "string \<Rightarrow> string" where
  "py_strip s = rev (dropWhile is_int_space (rev (dropWhile is_int_space s)))"

definition int_max_str_digits :: nat where
  "int_max_str_digits = 4300"

definition py_int :: "string \<Rightarrow> int option" where
  "py_int s =
     (if length (filter is_digit s) > int_max_str_digits then None
      else case py_strip s of
        c # cs \<Rightarrow>
          if c = CHR ''-'' then map_option uminus (digits_from 0 False cs)
          else if c = CHR ''+'' then digits_from 0 False cs
          else digits_from 0 False (c # cs)
      | [] \<Rightarrow> None)"

definition prepare_statement :: "string \<Rightarrow> Statement \<Rightarrow> PrepareResult \<times> Statement" where
  "prepare_statement user_input statement =
     (if startswith user_input ''insert''
      then (let statement = statement\<lparr>stmt_type := Some INSERT\<rparr>;
                parts = py_split user_input
            in if length parts \<noteq> 4 then (SYNTAX_ERROR, statement)
               else case py_int (parts ! 1) of
                 None \<Rightarrow> (SYNTAX_ERROR, statement)
               | Some r_id \<Rightarrow>
                   if r_id < 0 then (NEGATIVE_ID, statement)
                   else if int (length (parts ! 2)) > COLUMN_USERNAME_SIZE
                   then (STRING_TOO_LONG, statement)
                   else if int (length (parts ! 3)) > COLUMN_EMAIL_SIZE
                   then (STRING_TOO_LONG, statement)
                   else (PREPARE_SUCCESS,
                         statement\<lparr>row_to_insert :=
                           Some \<lparr>row_id = r_id, username = parts ! 2, email = parts ! 3\<rparr>\<rparr>))
      else if startswith user_input ''select''
      then (PREPARE_SUCCESS, statement\<lparr>stmt_type := Some SELECT\<rparr>)
      else (UNRECOGNIZED_STATEMENT, statement))"


section \<open>Inputs used in the examples\<close>

text \<open>An insert line whose username has exactly 32 characters and whose email has
  exactly 255.\<close>

definition max_line :: string where
  "max_line = ''insert 1 '' @ replicate 32 (CHR ''a'') @ '' '' @ replicate 255 (CHR ''a'')"

text \<open>A token that is written as a decimal integer without sign: one or more decimal
  digits; and the integer it denotes.\<close>

definition is_decimal_integer :: "string \<Rightarrow> bool" where
  "is_decimal_integer s = (s \<noteq> [] \<and> list_all is_digit s)"

definition decimal_value :: "string \<Rightarrow> int" where
  "decimal_value s = foldl (\<lambda>a c. 10 * a + (of_char c - 48)) 0 s"

text \<open>An insert line whose id is written with 4301 digits.\<close>

definition long_id :: string where
  "long_id = replicate 4301 (CHR ''1'')"

definition long_id_line :: string where
  "long_id_line = ''insert '' @ long_id @ '' a b''"

text \<open>Insert lines with a negative id, with a username of 33 characters, and with three
  tokens.\<close>

definition negative_id_line :: string where
  "negative_id_line = ''insert -1 a b''"

definition long_name_line :: string where
  "long_name_line = ''insert 1 '' @ replicate 33 (CHR ''a'') @ '' b''"

definition short_line :: string where
  "short_line = ''insert 1 a''"

text \<open>The bytes of an ASCII string, one per character.\<close>

definition ascii_bytes :: "string \<Rightarrow> bytes" where
  "ascii_bytes s = map (\<lambda>c. word_of_int (of_char c)) s"

definition sample_row :: Row where
  "sample_row = \<lparr>row_id = 1, username = ''user1'', email = ''person1@example.com''\<rparr>"

text \<open>A row whose id is one more than the largest unsigned 32-bit integer.\<close>

definition big_id_row :: Row where
  "big_id_row = \<lparr>row_id = 4294967296, username = ''a'', email = ''b''\<rparr>"

text \<open>What holds of the pager between its operations: every cached page has a number
  below \<open>num_pages\<close> and a buffer of \<open>PAGE_SIZE\<close> bytes.\<close>

definition pager_inv :: "Pager \<Rightarrow> bool" where
  "pager_inv p \<longleftrightarrow>
     (\<forall>n page. pages p n = Some page \<longrightarrow> 0 \<le> n \<and> n < num_pages p \<and> int (length page) = PAGE_SIZE)"

text \<open>The pager of a new, empty database file.\<close>

definition empty_pager :: Pager where
  "empty_pager = \<lparr>file_contents = [], num_pages = 0, pages = Map.empty\<rparr>"

subsection \<open>Pages seen as fields and cells\<close>

text \<open>The bytes of a page written as its header fields, its cells and the rest, used
  to state what the accessors read and write.\<close>

definition node_header :: "int \<Rightarrow> int \<Rightarrow> int \<Rightarrow> int \<Rightarrow> int \<Rightarrow> bytes" where
  "node_header ty rt par num lnk =
     le_bytes 1 ty @ le_bytes 1 rt @ le_bytes 4 par @ le_bytes 4 num @ le_bytes 4 lnk"

definition leaf_cell :: "int \<times> bytes \<Rightarrow> bytes" where
  "leaf_cell c = le_bytes 4 (fst c) @ snd c"

definition leaf_page :: "int \<Rightarrow> int \<Rightarrow> int \<Rightarrow> int \<Rightarrow> int \<Rightarrow> (int \<times> bytes) list \<Rightarrow> bytes \<Rightarrow> bytes" where
  "leaf_page ty rt par num lnk cells tail =
     node_header ty rt par num lnk @ concat (map leaf_cell cells) @ tail"

definition wf_cells :: "(int \<times> bytes) list \<Rightarrow> bool" where
  "wf_cells cells \<longleftrightarrow> list_all (\<lambda>c. length (snd c) = 291) cells"

text \<open>The 291 bytes of a row in a cell.\<close>

definition row_bytes :: "int \<Rightarrow> bytes \<Rightarrow> bytes \<Rightarrow> bytes" where
  "row_bytes i u e = le_bytes 4 i @ pad_field COLUMN_USERNAME_SIZE u @ pad_field COLUMN_EMAIL_SIZE e"

text \<open>The table of a new database: page 0 is an empty leaf with the root flag.\<close>

definition zero_cells :: "(int \<times> bytes) list" where
  "zero_cells = replicate 13 (0, replicate 291 0)"

definition fresh_table :: Table where
  "fresh_table = \<lparr>file_contents = [], num_pages = 1,
     pages = [0 \<mapsto> leaf_page 1 1 0 0 0 zero_cells (replicate 247 0)]\<rparr>"

text \<open>Two lines that the parser accepts: an id above the unsigned 32-bit range, and a
  username with the character U+00E9.\<close>

definition big_id_line :: string where
  "big_id_line = ''insert 4294967296 a b''"

definition non_ascii_line :: string where
  "non_ascii_line = ''insert 1 '' @ [CHR 0xE9] @ '' b''"

definition non_ascii_row :: Row where
  "non_ascii_row = \<lparr>row_id = 1, username = [CHR 0xE9], email = ''b''\<rparr>"

definition internal_cell :: "int \<times> int \<Rightarrow> bytes" where
  "internal_cell c = le_bytes 4 (fst c) @ le_bytes 4 (snd c)"

definition internal_page :: "int \<Rightarrow> int \<Rightarrow> int \<Rightarrow> int \<Rightarrow> int \<Rightarrow> (int \<times> int) list \<Rightarrow> bytes \<Rightarrow> bytes" where
  "internal_page ty rt par num lnk icells rest =
     node_header ty rt par num lnk @ concat (map internal_cell icells) @ rest"

text \<open>The first four internal cells that the bytes after a header hold.\<close>

definition icells_of :: "bytes \<Rightarrow> (int \<times> int) list" where
  "icells_of body =
     map (\<lambda>i. (le_int (take 4 (drop (8 * i) body)), le_int (take 4 (drop (8 * i + 4) body)))) [0..<4]"

text \<open>The bytes of a leaf page after its header.\<close>

definition leaf_body :: "(int \<times> bytes) list \<Rightarrow> bytes \<Rightarrow> bytes" where
  "leaf_body cells tail = concat (map leaf_cell cells) @ tail"

text \<open>The keys of the cells of a leaf page, as the accessors read them.\<close>

definition cell_keys :: "(int \<times> bytes) list \<Rightarrow> int list" where
  "cell_keys cells = map (\<lambda>c. fst c mod 4294967296) cells"

text \<open>A row that the table stores and gives back: an id in the unsigned 32-bit range,
  ASCII strings without NUL within the column sizes; and the cell that holds it.\<close>

definition valid_row :: "Row \<Rightarrow> bool" where
  "valid_row r \<longleftrightarrow>
     0 \<le> row_id r \<and> row_id r < 4294967296
     \<and> list_all (\<lambda>c. (of_char c :: int) < 128 \<and> c \<noteq> CHR 0x00) (username r)
     \<and> length (username r) \<le> 32
     \<and> list_all (\<lambda>c. (of_char c :: int) < 128 \<and> c \<noteq> CHR 0x00) (email r)
     \<and> length (email r) \<le> 255"

definition row_cell :: "Row \<Rightarrow> int \<times> bytes" where
  "row_cell r = (row_id r, row_bytes (row_id r) (ascii_bytes (username r)) (ascii_bytes (email r)))"

text \<open>The 14 cells in key order when a cell is put at position \<open>c\<close> of a full leaf.\<close>

definition cells_with :: "(int \<times> bytes) list \<Rightarrow> nat \<Rightarrow> int \<times> bytes \<Rightarrow> (int \<times> bytes) list" where
  "cells_with cells c cell = take c cells @ cell # drop c cells"

text \<open>A session that only inserts: the results of \<open>execute_insert\<close> in order, and the
  table at the end.\<close>

fun execute_inserts :: "nat \<Rightarrow> Row list \<Rightarrow> Table \<Rightarrow> error + (ExecuteResult list \<times> Table)" where
  "execute_inserts d [] t = Inr ([], t)"
| "execute_inserts d (r # rs) t =
     ebind (execute_insert d r t) (\<lambda>(res, t).
     ebind (execute_inserts d rs t) (\<lambda>(ress, t). Inr (res # ress, t)))"

text \<open>Rows with the ids \<open>k\<close>, \<open>k + 1\<close>, ... in this order, each a row that the table
  stores.\<close>

fun rows_from :: "int \<Rightarrow> Row list \<Rightarrow> bool" where
  "rows_from k [] = True"
| "rows_from k (r # rs) = (valid_row r \<and> row_id r = k \<and> rows_from (k + 1) rs)"

text \<open>The table whose only page is a root leaf with the given rows, at most 13.\<close>

definition leaf_root_table :: "Row list \<Rightarrow> Table" where
  "leaf_root_table rs = \<lparr>file_contents = [], num_pages = 1,
     pages = [0 \<mapsto> leaf_page 1 1 0 (int (length rs)) 0
                      (map row_cell rs @ drop (length rs) zero_cells) (replicate 247 0)]\<rparr>"

text \<open>The table after the root leaf with the first 13 of 14 rows was split: page 0 is
  the new root, page 2 the left leaf (the bytes of the old root: 13 cells, 7 of them in
  use), page 1 the right leaf.\<close>

definition two_leaf_table :: "Row list \<Rightarrow> Table" where
  "two_leaf_table rs = \<lparr>file_contents = [], num_pages = 3,
     pages = [0 \<mapsto> internal_page 0 1 0 1 1
                      ((icells_of (leaf_body (map row_cell (take 13 rs)) (replicate 247 0)))[0 := (2, 7)])
                      (drop 32 (leaf_body (map row_cell (take 13 rs)) (replicate 247 0))),
              2 \<mapsto> leaf_page 1 0 0 7 1 (map row_cell (take 13 rs)) (replicate 247 0),
              1 \<mapsto> leaf_page 1 0 0 7 0 (map row_cell (drop 7 rs) @ drop 7 zero_cells) (replicate 247 0)]\<rparr>"

text \<open>Fourteen rows with the ids 1 to 14.\<close>

definition first_rows :: "Row list" where
  "first_rows = map (\<lambda>k. \<lparr>row_id = int k, username = ''user'', email = ''person@example.com''\<rparr>) [1..<15]"




section \<open>Properties\<close>

subsection \<open>Errors as values\<close>

lemma ebind_Inr [simp]: "ebind (Inr v) f = f v"
  by (simp add: ebind_def)

lemma ebind_Inl [simp]: "ebind (Inl e) f = Inl e"
  by (simp add: ebind_def)

lemma ebind_eq_Inr: "ebind m f = Inr r \<longleftrightarrow> (\<exists>v. m = Inr v \<and> f v = Inr r)"
  by (cases m) auto

subsection \<open>The statement parser\<close>

lemma max_line_split:
  "py_split max_line = [''insert'', ''1'', replicate 32 (CHR ''a''), replicate 255 (CHR ''a'')]"
  by code_simp

lemma max_line_start: "startswith max_line ''insert''"
  by code_simp

lemma py_int_1: "py_int ''1'' = Some 1"
  by code_simp

lemma digit_not_int_space: "is_digit c \<Longrightarrow> \<not> is_int_space c"
  by (auto simp: is_digit_def is_int_space_def Let_def)

lemma digit_not_sign: "is_digit c \<Longrightarrow> c \<noteq> CHR ''-'' \<and> c \<noteq> CHR ''+'' \<and> c \<noteq> CHR ''_''"
  by (auto simp: is_digit_def)

lemma digits_from_decimal:
  "list_all is_digit ds \<Longrightarrow> ds \<noteq> [] \<or> b \<Longrightarrow>
   digits_from acc b ds = Some (foldl (\<lambda>a c. 10 * a + (of_char c - 48)) acc ds)"
  by (induction ds arbitrary: acc b) auto

lemma py_strip_decimal:
  assumes "is_decimal_integer s"
  shows "py_strip s = s"
proof -
  from assms obtain c cs where s: "s = c # cs" and c: "is_digit c" and all: "list_all is_digit s"
    by (cases s) (auto simp: is_decimal_integer_def)
  have 1: "dropWhile is_int_space s = s"
    using s c by (simp add: digit_not_int_space)
  have "rev s \<noteq> []" using s by simp
  moreover have "is_digit (hd (rev s))"
    using all s by (metis hd_rev last_in_set list.discI list_all_iff)
  ultimately have 2: "dropWhile is_int_space (rev s) = rev s"
    by (cases "rev s") (auto simp: digit_not_int_space)
  show ?thesis by (simp add: py_strip_def 1 2)
qed

lemma py_int_decimal:
  assumes "is_decimal_integer s" "length s \<le> 4300"
  shows "py_int s = Some (decimal_value s)"
proof -
  from assms(1) obtain c cs where s: "s = c # cs" and c: "is_digit c" and all: "list_all is_digit s"
    by (cases s) (auto simp: is_decimal_integer_def)
  have "length (filter is_digit s) \<le> 4300"
    using assms(2) length_filter_le [of is_digit s] by linarith
  moreover have "digits_from 0 False s = Some (decimal_value s)"
    unfolding decimal_value_def using all s by (intro digits_from_decimal) auto
  ultimately show ?thesis
    using py_strip_decimal [OF assms(1)] s digit_not_sign [OF c]
    by (simp add: py_int_def int_max_str_digits_def)
qed

lemma foldl_decimal_nonneg:
  "list_all is_digit ds \<Longrightarrow> (0 :: int) \<le> acc \<Longrightarrow>
   (0 :: int) \<le> foldl (\<lambda>a c. 10 * a + (of_char c - 48)) acc ds"
proof (induction ds arbitrary: acc)
  case Nil
  then show ?case by simp
next
  case (Cons c ds)
  have "(48 :: nat) \<le> of_char c"
    using Cons.prems(1) by (simp add: is_digit_def)
  then have "int 48 \<le> int (of_char c)"
    by (rule iffD2 [OF of_nat_le_iff])
  then have "(48 :: int) \<le> of_char c"
    by (simp add: of_nat_of_char)
  then have "0 \<le> 10 * acc + (of_char c - 48)"
    using Cons.prems(2) by simp
  from Cons.IH [OF _ this] Cons.prems(1) show ?case by simp
qed

lemma decimal_value_nonneg: "is_decimal_integer s \<Longrightarrow> 0 \<le> decimal_value s"
  by (simp add: is_decimal_integer_def decimal_value_def foldl_decimal_nonneg)

lemma py_int_too_long: "4300 < length (filter is_digit s) \<Longrightarrow> py_int s = None"
  by (simp add: py_int_def int_max_str_digits_def)

lemma split_from_token:
  "\<forall>c \<in> set w. \<not> is_space c \<Longrightarrow> split_from tok (w @ rest) = split_from (rev w @ tok) rest"
  by (induction w arbitrary: tok) auto

lemma long_id_length: "length long_id = 4301"
  by (simp add: long_id_def)

lemma long_id_set: "set long_id = {CHR ''1''}"
  unfolding long_id_def by (rule set_replicate) simp

lemma long_id_decimal: "is_decimal_integer long_id"
  using long_id_length by (auto simp: is_decimal_integer_def list_all_iff long_id_set is_digit_def)

lemma long_id_digits: "length (filter is_digit long_id) = 4301"
proof -
  have "filter is_digit long_id = long_id"
    by (rule filter_True) (simp add: long_id_set is_digit_def)
  then show ?thesis by (simp add: long_id_length)
qed

lemma long_id_line_split:
  "py_split long_id_line = [''insert'', long_id, ''a'', ''b'']"
proof -
  have w: "\<forall>c \<in> set long_id. \<not> is_space c"
    by (simp add: long_id_set is_space_def)
  have "split_from [] (''insert '' @ long_id @ '' a b'')
        = ''insert'' # split_from [] (long_id @ '' a b'')"
    by (simp add: is_space_def)
  also have "split_from [] (long_id @ '' a b'') = split_from (rev long_id) '' a b''"
    using split_from_token [OF w, of "[]" "'' a b''"] by simp
  also have "\<dots> = [long_id, ''a'', ''b'']"
    using long_id_length by (auto simp: is_space_def)
  finally show ?thesis by (simp add: py_split_def long_id_line_def)
qed

lemma long_id_line_start: "startswith long_id_line ''insert''"
  by (simp add: startswith_def long_id_line_def)

lemma negative_id_line_facts:
  "startswith negative_id_line ''insert''"
  "py_split negative_id_line = [''insert'', ''-1'', ''a'', ''b'']"
  "py_int ''-1'' = Some (- 1)"
  by code_simp+

lemma long_name_line_facts:
  "startswith long_name_line ''insert''"
  "py_split long_name_line = [''insert'', ''1'', replicate 33 (CHR ''a''), ''b'']"
  by code_simp+

lemma short_line_facts:
  "startswith short_line ''insert''"
  "py_split short_line = [''insert'', ''1'', ''a'']"
  by code_simp+

text \<open>C8, the claim as it stands. The line \<open>long_id_line\<close> starts with \<open>insert\<close> and has
  four tokens; its id token is a decimal integer, not negative; its username and email have
  one character each. \<open>prepare_statement\<close> returns \<open>SYNTAX_ERROR\<close> for it, not \<open>SUCCESS\<close>:
  \<open>int\<close> raises \<open>ValueError\<close> on a literal of 4301 digits.\<close>

theorem prepare_statement_long_id:
  "startswith long_id_line ''insert''
   \<and> py_split long_id_line = [''insert'', long_id, ''a'', ''b'']
   \<and> is_decimal_integer long_id \<and> length long_id = 4301
   \<and> 0 \<le> decimal_value long_id
   \<and> fst (prepare_statement long_id_line \<lparr>stmt_type = None, row_to_insert = None\<rparr>) = SYNTAX_ERROR"
  using py_int_too_long [of long_id]
  by (simp add: long_id_line_start long_id_line_split long_id_decimal decimal_value_nonneg
        long_id_digits long_id_length prepare_statement_def Let_def)

text \<open>C8. On a line that starts with \<open>insert\<close>, \<open>prepare_statement\<close> returns
  \<open>SYNTAX_ERROR\<close> when the line does not have four tokens or \<open>int\<close> rejects the id token,
  which it does in particular when the token has more than 4300 digits; otherwise
  \<open>NEGATIVE_ID\<close> when the id is negative; otherwise \<open>STRING_TOO_LONG\<close> when the username
  has more than 32 characters or the email more than 255; otherwise \<open>SUCCESS\<close>, with the
  row of the three tokens. The checks are made in this order, so a line that meets several
  conditions gets the first result. An id token of at most 4300 decimal digits is an
  integer for \<open>int\<close>, so such a line with four tokens and strings within the limits, a
  username of exactly 32 characters and an email of exactly 255 among them, is accepted.\<close>

theorem prepare_statement_insert:
  assumes "startswith line ''insert''"
  shows "(length (py_split line) \<noteq> 4 \<or> py_int (py_split line ! 1) = None
           \<longrightarrow> fst (prepare_statement line st) = SYNTAX_ERROR)
       \<and> (length (py_split line) = 4 \<and> 4300 < length (filter is_digit (py_split line ! 1))
           \<longrightarrow> fst (prepare_statement line st) = SYNTAX_ERROR)
       \<and> (\<forall>n. length (py_split line) = 4 \<and> py_int (py_split line ! 1) = Some n \<and> n < 0
           \<longrightarrow> fst (prepare_statement line st) = NEGATIVE_ID)
       \<and> (\<forall>n. length (py_split line) = 4 \<and> py_int (py_split line ! 1) = Some n \<and> 0 \<le> n
              \<and> (length (py_split line ! 2) > 32 \<or> length (py_split line ! 3) > 255)
           \<longrightarrow> fst (prepare_statement line st) = STRING_TOO_LONG)
       \<and> (\<forall>n. length (py_split line) = 4 \<and> py_int (py_split line ! 1) = Some n \<and> 0 \<le> n
              \<and> length (py_split line ! 2) \<le> 32 \<and> length (py_split line ! 3) \<le> 255
           \<longrightarrow> prepare_statement line st =
                 (PREPARE_SUCCESS,
                  st\<lparr>stmt_type := Some INSERT,
                     row_to_insert := Some \<lparr>row_id = n, username = py_split line ! 2,
                                            email = py_split line ! 3\<rparr>\<rparr>))
       \<and> (length (py_split line) = 4 \<and> is_decimal_integer (py_split line ! 1)
              \<and> length (py_split line ! 1) \<le> 4300
              \<and> length (py_split line ! 2) \<le> 32 \<and> length (py_split line ! 3) \<le> 255
           \<longrightarrow> prepare_statement line st =
                 (PREPARE_SUCCESS,
                  st\<lparr>stmt_type := Some INSERT,
                     row_to_insert := Some \<lparr>row_id = decimal_value (py_split line ! 1),
                                            username = py_split line ! 2,
                                            email = py_split line ! 3\<rparr>\<rparr>))"
proof -
  have "fst (prepare_statement line st) = SYNTAX_ERROR"
    if "length (py_split line) \<noteq> 4 \<or> py_int (py_split line ! 1) = None"
    using that assms by (auto simp: prepare_statement_def Let_def)
  moreover have "fst (prepare_statement line st) = SYNTAX_ERROR"
    if "length (py_split line) = 4" "4300 < length (filter is_digit (py_split line ! 1))"
    using that assms py_int_too_long [OF that(2)] by (simp add: prepare_statement_def Let_def)
  moreover have "fst (prepare_statement line st) = NEGATIVE_ID"
    if "length (py_split line) = 4" "py_int (py_split line ! 1) = Some n" "n < 0" for n
    using that assms by (simp add: prepare_statement_def Let_def)
  moreover have "fst (prepare_statement line st) = STRING_TOO_LONG"
    if "length (py_split line) = 4" "py_int (py_split line ! 1) = Some n" "0 \<le> n"
       "length (py_split line ! 2) > 32 \<or> length (py_split line ! 3) > 255" for n
    using that assms
    by (auto simp: prepare_statement_def Let_def COLUMN_USERNAME_SIZE_def COLUMN_EMAIL_SIZE_def)
  moreover have success: "prepare_statement line st =
        (PREPARE_SUCCESS,
         st\<lparr>stmt_type := Some INSERT,
            row_to_insert := Some \<lparr>row_id = n, username = py_split line ! 2,
                                   email = py_split line ! 3\<rparr>\<rparr>)"
    if "length (py_split line) = 4" "py_int (py_split line ! 1) = Some n" "0 \<le> n"
       "length (py_split line ! 2) \<le> 32" "length (py_split line ! 3) \<le> 255" for n
    using that assms
    by (simp add: prepare_statement_def Let_def COLUMN_USERNAME_SIZE_def COLUMN_EMAIL_SIZE_def)
  moreover have "prepare_statement line st =
        (PREPARE_SUCCESS,
         st\<lparr>stmt_type := Some INSERT,
            row_to_insert := Some \<lparr>row_id = decimal_value (py_split line ! 1),
                                   username = py_split line ! 2,
                                   email = py_split line ! 3\<rparr>\<rparr>)"
    if "length (py_split line) = 4" "is_decimal_integer (py_split line ! 1)"
       "length (py_split line ! 1) \<le> 4300"
       "length (py_split line ! 2) \<le> 32" "length (py_split line ! 3) \<le> 255"
    using success [OF that(1) py_int_decimal [OF that(2,3)] decimal_value_nonneg [OF that(2)] that(4,5)] .
  ultimately show ?thesis by blast
qed

theorem prepare_statement_insert_witness:
  "startswith max_line ''insert''
   \<and> length (py_split max_line ! 2) = 32 \<and> length (py_split max_line ! 3) = 255
   \<and> prepare_statement max_line \<lparr>stmt_type = None, row_to_insert = None\<rparr> =
       (PREPARE_SUCCESS,
        \<lparr>stmt_type = Some INSERT,
         row_to_insert = Some \<lparr>row_id = 1, username = replicate 32 (CHR ''a''),
                                email = replicate 255 (CHR ''a'')\<rparr>\<rparr>)
   \<and> fst (prepare_statement negative_id_line \<lparr>stmt_type = None, row_to_insert = None\<rparr>) = NEGATIVE_ID
   \<and> fst (prepare_statement long_name_line \<lparr>stmt_type = None, row_to_insert = None\<rparr>) = STRING_TOO_LONG
   \<and> fst (prepare_statement short_line \<lparr>stmt_type = None, row_to_insert = None\<rparr>) = SYNTAX_ERROR
   \<and> fst (prepare_statement long_id_line \<lparr>stmt_type = None, row_to_insert = None\<rparr>) = SYNTAX_ERROR"
  using prepare_statement_insert [OF max_line_start, of "\<lparr>stmt_type = None, row_to_insert = None\<rparr>"]
    prepare_statement_insert [OF negative_id_line_facts(1), of "\<lparr>stmt_type = None, row_to_insert = None\<rparr>"]
    prepare_statement_insert [OF long_name_line_facts(1), of "\<lparr>stmt_type = None, row_to_insert = None\<rparr>"]
    prepare_statement_insert [OF short_line_facts(1), of "\<lparr>stmt_type = None, row_to_insert = None\<rparr>"]
    prepare_statement_insert [OF long_id_line_start, of "\<lparr>stmt_type = None, row_to_insert = None\<rparr>"]
  by (simp add: max_line_split py_int_1 max_line_start negative_id_line_facts long_name_line_facts
        short_line_facts long_id_line_split long_id_line_start long_id_digits)

subsection \<open>Little-endian integers\<close>

lemma le_bytes_Suc: "le_bytes (Suc n) v = word_of_int v # le_bytes n (v div 256)"
proof -
  have "[0..<Suc n] = 0 # map Suc [0..<n]"
    by (simp add: upt_conv_Cons map_Suc_upt del: upt_Suc)
  then show ?thesis
    by (simp add: le_bytes_def comp_def zdiv_zmult2_eq del: upt_Suc)
qed

lemma le_bytes_0 [simp]: "le_bytes 0 v = []"
  by (simp add: le_bytes_def)

lemma length_le_bytes [simp]: "length (le_bytes n v) = n"
  by (simp add: le_bytes_def)

lemma le_int_Cons: "le_int (b # bs) = uint b + 256 * le_int bs"
  by (simp add: le_int_def)

lemma le_int_Nil [simp]: "le_int [] = 0"
  by (simp add: le_int_def)

lemma uint_byte: "uint (word_of_int x :: byte) = x mod 256"
  by (simp add: uint_word_of_int_eq take_bit_eq_mod)

lemma le_int_le_bytes_mod: "le_int (le_bytes n v) = v mod 256 ^ n"
proof (induction n arbitrary: v)
  case 0
  then show ?case by simp
next
  case (Suc n)
  have "v mod (256 * 256 ^ n) = v mod 256 + 256 * (v div 256 mod 256 ^ n)"
    using zmod_zmult2_eq [of "256 ^ n" v 256] by simp
  with Suc show ?case
    by (simp add: le_bytes_Suc le_int_Cons uint_byte)
qed

lemma le_int_le_bytes: "0 \<le> v \<Longrightarrow> v < 256 ^ n \<Longrightarrow> le_int (le_bytes n v) = v"
  by (simp add: le_int_le_bytes_mod)

lemma le_int_nonneg: "0 \<le> le_int bs"
  by (induction bs) (simp_all add: le_int_Cons)

lemma le_int_bound: "le_int bs < 256 ^ length bs"
proof (induction bs)
  case Nil
  then show ?case by simp
next
  case (Cons b bs)
  have "uint b < 256" using uint_bounded [of b] by simp
  moreover have "le_int bs + 1 \<le> 256 ^ length bs" using Cons by simp
  then have "256 * (le_int bs + 1) \<le> 256 * 256 ^ length bs" by simp
  ultimately show ?case by (simp add: le_int_Cons)
qed

lemma le_bytes_le_int: "le_bytes (length bs) (le_int bs) = bs"
proof (induction bs)
  case Nil
  then show ?case by simp
next
  case (Cons b bs)
  have b: "uint b < 256" "0 \<le> uint b" using uint_bounded [of b] by simp_all
  have "(uint b + 256 * le_int bs) div 256 = le_int bs"
    using b by simp
  moreover have "(word_of_int (uint b + 256 * le_int bs) :: byte) = b"
  proof -
    have "uint (word_of_int (uint b + 256 * le_int bs) :: byte) = (uint b + 256 * le_int bs) mod 256"
      by (rule uint_byte)
    also have "\<dots> = uint b" using b by simp
    finally show ?thesis by (simp only: word_uint_eq_iff)
  qed
  ultimately show ?case using Cons
    by (simp add: le_bytes_Suc le_int_Cons)
qed

subsection \<open>Buffers and the row codec\<close>

lemma length_write_at: "off + length bs \<le> length buf \<Longrightarrow> length (write_at buf off bs) = length buf"
  by (simp add: write_at_def)

lemma read_write_at_same:
  "off + length bs \<le> length buf \<Longrightarrow> take (length bs) (drop off (write_at buf off bs)) = bs"
  by (simp add: write_at_def)

lemma read_write_at_before:
  assumes "off + length bs \<le> length buf" "off' + w \<le> off"
  shows "take w (drop off' (write_at buf off bs)) = take w (drop off' buf)"
proof -
  have "drop off' (write_at buf off bs) = drop off' (take off buf) @ bs @ drop (off + length bs) buf"
    using assms by (simp add: write_at_def)
  moreover have "w \<le> length (drop off' (take off buf))"
    using assms by simp
  ultimately have "take w (drop off' (write_at buf off bs)) = take w (drop off' (take off buf))"
    by simp
  also have "\<dots> = take w (take (off - off') (drop off' buf))"
    by (simp add: drop_take)
  also have "\<dots> = take w (drop off' buf)"
    using assms by (simp add: min_def)
  finally show ?thesis .
qed

lemma read_write_at_after:
  assumes "off + length bs \<le> length buf" "off + length bs \<le> off'"
  shows "drop off' (write_at buf off bs) = drop off' buf"
proof -
  have "drop off' (write_at buf off bs) = drop (off' - off - length bs) (drop (off + length bs) buf)"
    using assms by (simp add: write_at_def)
  also have "\<dots> = drop off' buf"
    using assms by simp
  finally show ?thesis .
qed

lemma read_write_at_other:
  "off + length bs \<le> length buf \<Longrightarrow> off' + w \<le> off \<or> off + length bs \<le> off' \<Longrightarrow>
   take w (drop off' (write_at buf off bs)) = take w (drop off' buf)"
  using read_write_at_before read_write_at_after by metis

lemma length_pad_field [simp]: "0 \<le> w \<Longrightarrow> length (pad_field w bs) = nat w"
  by (simp add: pad_field_def)

lemma pad_field_short: "int (length bs) \<le> w \<Longrightarrow> pad_field w bs = bs @ replicate (nat w - length bs) 0"
  by (simp add: pad_field_def)

lemma dropWhile_replicate_append: "P x \<Longrightarrow> dropWhile P (replicate k x @ ys) = dropWhile P ys"
  by (induction k) simp_all

lemma rstrip_nul_pad:
  assumes "\<forall>c \<in> set s. c \<noteq> CHR 0x00"
  shows "rstrip_nul (s @ replicate k (CHR 0x00)) = s"
proof -
  have "dropWhile (\<lambda>c. c = CHR 0x00) (rev s) = rev s"
    using assms by (cases "rev s") (auto simp: dropWhile_eq_self_iff)
  then show ?thesis
    by (simp add: rstrip_nul_def dropWhile_replicate_append)
qed

lemma of_char_int_nonneg: "0 \<le> (of_char c :: int)"
  by (metis of_nat_of_char of_nat_0_le_iff)

lemma uint_of_char_byte:
  "(of_char c :: int) < 128 \<Longrightarrow> uint (word_of_int (of_char c) :: byte) = of_char c"
  using of_char_int_nonneg [of c] by (simp add: uint_byte)

lemma char_byte_roundtrip:
  "(of_char c :: int) < 128 \<Longrightarrow> char_of (uint (word_of_int (of_char c) :: byte)) = c"
  by (simp add: uint_of_char_byte)

lemma decode_encode_pad:
  assumes "\<forall>c \<in> set s. (of_char c :: int) < 128"
  shows "decode_ascii (map (\<lambda>c. word_of_int (of_char c)) s @ replicate k 0)
           = Inr (s @ replicate k (CHR 0x00))"
proof -
  have nul: "char_of (0::int) = CHR 0x00"
    by (simp add: char_of_def)
  have m: "map (\<lambda>b. char_of (uint b)) (map (\<lambda>c. word_of_int (of_char c) :: byte) s) = s"
    using assms by (induction s) (simp_all add: char_byte_roundtrip)
  have a: "\<forall>b \<in> set (map (\<lambda>c. word_of_int (of_char c) :: byte) s @ replicate k 0). uint b < 128"
    using assms by (auto simp: uint_of_char_byte)
  show ?thesis
    unfolding decode_ascii_def using a m by (simp add: nul)
qed


lemma struct_offset_ok:
  "0 \<le> offset \<Longrightarrow> offset + w \<le> int (length buf) \<Longrightarrow> struct_offset buf offset w = Inr (nat offset)"
  by (simp add: struct_offset_def Let_def)

lemma py_slice_inside:
  "0 \<le> a \<Longrightarrow> a \<le> b \<Longrightarrow> b \<le> int (length xs) \<Longrightarrow>
   py_slice xs a b = take (nat (b - a)) (drop (nat a) xs)"
  by (simp add: py_slice_def slice_bound_def Let_def min_def nat_diff_distrib)

lemma unpack_row_fields:
  assumes "length ib = 4" "length ub = 32" "length eb = 255"
  shows "unpack_row (ib @ ub @ eb) = Inr (le_int ib, ub, eb)"
  using assms by (simp add: unpack_row_def ROW_SIZE_def COLUMN_USERNAME_SIZE_def COLUMN_EMAIL_SIZE_def)

text \<open>C6 (amended). For every row whose id lies in the range of an unsigned 32-bit
  integer and whose username and email are ASCII strings of at most 32 and 255
  characters without NUL, \<open>serialize_row\<close> writes 291 bytes, the id as four
  little-endian bytes followed by the two NUL-padded fields, and \<open>deserialize_row\<close>
  of these bytes is the row.\<close>

theorem serialize_row_roundtrip:
  assumes id_range: "0 \<le> row_id r" "row_id r < 2 ^ 32"
    and user: "\<forall>c \<in> set (username r). (of_char c :: int) < 128 \<and> c \<noteq> CHR 0x00"
              "length (username r) \<le> 32"
    and mail: "\<forall>c \<in> set (email r). (of_char c :: int) < 128 \<and> c \<noteq> CHR 0x00"
              "length (email r) \<le> 255"
    and room: "0 \<le> offset" "offset + ROW_SIZE \<le> int (length page)"
  shows "\<exists>page'. serialize_row r page offset = Inr page'
           \<and> length page' = length page
           \<and> py_slice page' offset (offset + ROW_SIZE) =
               le_bytes 4 (row_id r)
               @ (ascii_bytes (username r) @ replicate (32 - length (username r)) 0)
               @ (ascii_bytes (email r) @ replicate (255 - length (email r)) 0)
           \<and> length (py_slice page' offset (offset + ROW_SIZE)) = 291
           \<and> deserialize_row (py_slice page' offset (offset + ROW_SIZE)) = Inr r"
proof -
  let ?ib = "le_bytes 4 (row_id r)"
  let ?ub = "ascii_bytes (username r) @ replicate (32 - length (username r)) 0"
  let ?eb = "ascii_bytes (email r) @ replicate (255 - length (email r)) 0"
  let ?val = "?ib @ ?ub @ ?eb"
  let ?page' = "write_at page (nat offset) ?val"
  have len: "length ?ib = 4" "length ?ub = 32" "length ?eb = 255"
    using user(2) mail(2) by (simp_all add: ascii_bytes_def)
  then have lenv: "length ?val = 291" by simp
  have fits: "nat offset + length ?val \<le> length page"
    using room lenv by (simp add: ROW_SIZE_def COLUMN_USERNAME_SIZE_def COLUMN_EMAIL_SIZE_def)
  have enc_u: "encode_ascii (username r) = Inr (ascii_bytes (username r))"
    using user(1) by (simp add: encode_ascii_def ascii_bytes_def)
  have enc_e: "encode_ascii (email r) = Inr (ascii_bytes (email r))"
    using mail(1) by (simp add: encode_ascii_def ascii_bytes_def)
  have pad_u: "pad_field COLUMN_USERNAME_SIZE (ascii_bytes (username r)) = ?ub"
    using user(2) by (simp add: pad_field_def COLUMN_USERNAME_SIZE_def ascii_bytes_def)
  have pad_e: "pad_field COLUMN_EMAIL_SIZE (ascii_bytes (email r)) = ?eb"
    using mail(2) by (simp add: pad_field_def COLUMN_EMAIL_SIZE_def ascii_bytes_def)
  have ser: "serialize_row r page offset = Inr ?page'"
    using id_range room
    by (simp add: serialize_row_def enc_u enc_e pack_into_row_def struct_offset_ok pad_u pad_e)
  have len': "length ?page' = length page"
    using fits by (rule length_write_at)
  have "py_slice ?page' offset (offset + ROW_SIZE) = take (length ?val) (drop (nat offset) ?page')"
    using room len' lenv
    by (subst py_slice_inside) (simp_all add: ROW_SIZE_def COLUMN_USERNAME_SIZE_def COLUMN_EMAIL_SIZE_def)
  also have "\<dots> = ?val"
    using fits by (rule read_write_at_same)
  finally have slice: "py_slice ?page' offset (offset + ROW_SIZE) = ?val" .
  have dec_u: "decode_ascii ?ub = Inr (username r @ replicate (32 - length (username r)) (CHR 0x00))"
    unfolding ascii_bytes_def using user(1) by (intro decode_encode_pad) blast
  have dec_e: "decode_ascii ?eb = Inr (email r @ replicate (255 - length (email r)) (CHR 0x00))"
    unfolding ascii_bytes_def using mail(1) by (intro decode_encode_pad) blast
  have strip_u: "rstrip_nul (username r @ replicate (32 - length (username r)) (CHR 0x00)) = username r"
    using user(1) by (intro rstrip_nul_pad) blast
  have strip_e: "rstrip_nul (email r @ replicate (255 - length (email r)) (CHR 0x00)) = email r"
    using mail(1) by (intro rstrip_nul_pad) blast
  have idv: "le_int ?ib = row_id r"
    using id_range by (simp add: le_int_le_bytes)
  have "deserialize_row ?val = Inr r"
    unfolding deserialize_row_def unpack_row_fields [OF len]
    by (simp add: dec_u dec_e strip_u strip_e idv)
  with ser len' slice lenv show ?thesis by simp
qed

theorem serialize_row_roundtrip_witness:
  "\<exists>page'. serialize_row sample_row (replicate 4096 0) 18 = Inr page'
     \<and> deserialize_row (py_slice page' 18 (18 + ROW_SIZE)) = Inr sample_row"
proof -
  have "\<exists>page'. serialize_row sample_row (replicate 4096 0) 18 = Inr page'
           \<and> length page' = length (replicate 4096 (0::byte))
           \<and> py_slice page' 18 (18 + ROW_SIZE) =
               le_bytes 4 (row_id sample_row)
               @ (ascii_bytes (username sample_row) @ replicate (32 - length (username sample_row)) 0)
               @ (ascii_bytes (email sample_row) @ replicate (255 - length (email sample_row)) 0)
           \<and> length (py_slice page' 18 (18 + ROW_SIZE)) = 291
           \<and> deserialize_row (py_slice page' 18 (18 + ROW_SIZE)) = Inr sample_row"
    by (rule serialize_row_roundtrip)
       (simp_all add: sample_row_def ROW_SIZE_def COLUMN_USERNAME_SIZE_def COLUMN_EMAIL_SIZE_def)
  then show ?thesis by blast
qed

text \<open>The claim as stated, without the range of the id, fails: the row with id
  \<open>2 ^ 32\<close> and one-letter strings is not serialized, \<open>struct.pack_into\<close> raises.\<close>

theorem serialize_row_counterexample:
  "serialize_row big_id_row (replicate 4096 0) 18 = Inl StructError"
  by (simp add: serialize_row_def big_id_row_def encode_ascii_def pack_into_row_def)

subsection \<open>The pager\<close>

lemma pager_init_inv: "pager_init contents = Inr p \<Longrightarrow> pager_inv p"
  by (auto simp: pager_init_def pager_inv_def Let_def split: if_splits)

lemma file_read_length:
  "file_read f pos n = Inr bs \<Longrightarrow> 0 \<le> n \<Longrightarrow> int (length bs) \<le> n"
  by (auto simp: file_read_def split: if_splits)

lemma length_fill_page:
  assumes "int (length bs) \<le> PAGE_SIZE"
  shows "int (length (py_slice_assign (replicate (nat PAGE_SIZE) (0::byte)) 0 (int (length bs)) bs)) = PAGE_SIZE"
  using assms by (simp add: py_slice_assign_def slice_bound_def Let_def PAGE_SIZE_def min_def)

lemma get_page_miss:
  assumes "0 \<le> n" "n \<le> TABLE_MAX_PAGES" "pages p n = None"
  shows "\<exists>page. get_page p n = Inr (page, p\<lparr>pages := (pages p)(n \<mapsto> page), num_pages := max (num_pages p) (n + 1)\<rparr>)
           \<and> int (length page) = PAGE_SIZE"
proof (cases "n < num_pages p")
  case True
  obtain bs where bs: "file_read (file_contents p) (n * PAGE_SIZE) PAGE_SIZE = Inr bs"
    using assms(1) by (simp add: file_read_def PAGE_SIZE_def)
  then have "int (length bs) \<le> PAGE_SIZE"
    by (rule file_read_length) (simp add: PAGE_SIZE_def)
  then have "int (length (py_slice_assign (replicate (nat PAGE_SIZE) (0::byte)) 0 (int (length bs)) bs)) = PAGE_SIZE"
    by (rule length_fill_page)
  moreover have "max (num_pages p) (n + 1) = num_pages p" using True by simp
  ultimately show ?thesis
    using assms True bs by (simp add: get_page_def Let_def)
next
  case False
  then have "max (num_pages p) (n + 1) = n + 1" by simp
  then show ?thesis
    using assms False by (simp add: get_page_def Let_def PAGE_SIZE_def)
qed

text \<open>C7. For a page number \<open>n \<ge> 0\<close>, \<open>get_page\<close> is fatal exactly when
  \<open>n > TABLE_MAX_PAGES\<close>; otherwise it returns a buffer of \<open>PAGE_SIZE\<close> bytes, which is
  then the cached page \<open>n\<close>, and leaves \<open>num_pages\<close> at the maximum of its former value
  and \<open>n + 1\<close>, so \<open>num_pages\<close> never decreases; \<open>flush\<close> and
  \<open>get_unused_page_num\<close> do not change it.\<close>

theorem get_page_safe:
  assumes "pager_inv p" "0 \<le> n"
  shows "(n > TABLE_MAX_PAGES \<longrightarrow> get_page p n = Inl (SysExit 1))
       \<and> (n \<le> TABLE_MAX_PAGES \<longrightarrow>
            (\<exists>page p'. get_page p n = Inr (page, p')
               \<and> int (length page) = PAGE_SIZE
               \<and> pages p' n = Some page
               \<and> num_pages p' = max (num_pages p) (n + 1)
               \<and> num_pages p \<le> num_pages p'
               \<and> pager_inv p'))
       \<and> (\<forall>p'. flush p n = Inr p' \<longrightarrow> num_pages p' = num_pages p)
       \<and> get_unused_page_num p = num_pages p"
proof (intro conjI impI allI)
  show "get_page p n = Inl (SysExit 1)" if "n > TABLE_MAX_PAGES"
    using that by (simp add: get_page_def)
next
  assume le: "n \<le> TABLE_MAX_PAGES"
  show "\<exists>page p'. get_page p n = Inr (page, p')
               \<and> int (length page) = PAGE_SIZE
               \<and> pages p' n = Some page
               \<and> num_pages p' = max (num_pages p) (n + 1)
               \<and> num_pages p \<le> num_pages p'
               \<and> pager_inv p'"
  proof (cases "pages p n")
    case None
    from get_page_miss [OF assms(2) le None] obtain page where
      g: "get_page p n = Inr (page, p\<lparr>pages := (pages p)(n \<mapsto> page), num_pages := max (num_pages p) (n + 1)\<rparr>)"
      and l: "int (length page) = PAGE_SIZE" by blast
    have "pager_inv (p\<lparr>pages := (pages p)(n \<mapsto> page), num_pages := max (num_pages p) (n + 1)\<rparr>)"
      unfolding pager_inv_def
    proof (intro allI impI)
      fix m pg
      assume "pages (p\<lparr>pages := (pages p)(n \<mapsto> page), num_pages := max (num_pages p) (n + 1)\<rparr>) m = Some pg"
      then have "(m = n \<and> pg = page) \<or> pages p m = Some pg"
        by (simp split: if_splits)
      then have "0 \<le> m \<and> m < max (num_pages p) (n + 1) \<and> int (length pg) = PAGE_SIZE"
      proof
        assume "m = n \<and> pg = page"
        then show ?thesis using assms(2) l by simp
      next
        assume "pages p m = Some pg"
        then have "0 \<le> m \<and> m < num_pages p \<and> int (length pg) = PAGE_SIZE"
          using assms(1) unfolding pager_inv_def by blast
        then show ?thesis by (simp add: less_max_iff_disj)
      qed
      then show "0 \<le> m
          \<and> m < num_pages (p\<lparr>pages := (pages p)(n \<mapsto> page), num_pages := max (num_pages p) (n + 1)\<rparr>)
          \<and> int (length pg) = PAGE_SIZE"
        by simp
    qed
    with g l show ?thesis by auto
  next
    case (Some page)
    then have "n < num_pages p" "int (length page) = PAGE_SIZE"
      using assms(1) by (auto simp: pager_inv_def)
    then show ?thesis
      using Some le assms(1) by (simp add: get_page_def)
  qed
next
  fix p' assume "flush p n = Inr p'"
  then show "num_pages p' = num_pages p"
    by (auto simp: flush_def ebind_eq_Inr split: option.splits)
next
  show "get_unused_page_num p = num_pages p"
    by (simp add: get_unused_page_num_def)
qed


lemma empty_pager_init: "pager_init [] = Inr empty_pager"
  by (simp add: pager_init_def empty_pager_def PAGE_SIZE_def)

theorem get_page_safe_witness:
  "pager_inv empty_pager \<and> (0::int) \<le> 0 \<and>
   (\<exists>page p'. get_page empty_pager 0 = Inr (page, p') \<and> int (length page) = PAGE_SIZE
      \<and> num_pages p' = 1 \<and> pager_inv p')"
proof -
  have inv: "pager_inv empty_pager"
    using empty_pager_init by (rule pager_init_inv)
  have "0 \<le> TABLE_MAX_PAGES" by (simp add: TABLE_MAX_PAGES_def)
  with get_page_safe [OF inv, of 0] inv show ?thesis
    by (auto simp: empty_pager_def)
qed

subsection \<open>Reading and writing inside a sequence of cells\<close>

lemma length_concat_uniform:
  "\<forall>x \<in> set xs. length x = n \<Longrightarrow> length (concat xs) = n * length xs"
  by (induction xs) simp_all

lemma drop_concat_uniform:
  "\<forall>x \<in> set xs. length x = n \<Longrightarrow> i \<le> length xs \<Longrightarrow> drop (n * i) (concat xs) = concat (drop i xs)"
proof (induction xs arbitrary: i)
  case Nil
  then show ?case by simp
next
  case (Cons x xs)
  show ?case
  proof (cases i)
    case 0
    then show ?thesis by simp
  next
    case (Suc j)
    then show ?thesis using Cons by (simp add: algebra_simps)
  qed
qed

lemma take_concat_uniform:
  "\<forall>x \<in> set xs. length x = n \<Longrightarrow> i \<le> length xs \<Longrightarrow> take (n * i) (concat xs) = concat (take i xs)"
proof (induction xs arbitrary: i)
  case Nil
  then show ?case by simp
next
  case (Cons x xs)
  show ?case
  proof (cases i)
    case 0
    then show ?thesis by simp
  next
    case (Suc j)
    then show ?thesis using Cons by (simp add: algebra_simps)
  qed
qed

lemma read_mid:
  "q + w \<le> length B \<Longrightarrow> take w (drop (length A + q) (A @ B @ C)) = take w (drop q B)"
  by (simp add: add.commute)

lemma write_mid:
  "q + length bs \<le> length B \<Longrightarrow> write_at (A @ B @ C) (length A + q) bs = A @ write_at B q bs @ C"
  by (simp add: write_at_def add.assoc)

lemma split_chunks:
  assumes "\<forall>x \<in> set xs. length x = n" "i < length xs"
  shows "pre @ concat xs @ post = (pre @ concat (take i xs)) @ xs ! i @ (concat (drop (Suc i) xs) @ post)"
    and "length (pre @ concat (take i xs)) = length pre + n * i"
proof -
  have "xs = take i xs @ xs ! i # drop (Suc i) xs"
    using assms(2) by (simp add: id_take_nth_drop)
  then have "concat xs = concat (take i xs) @ xs ! i @ concat (drop (Suc i) xs)"
    by (metis concat.simps(2) concat_append)
  then show "pre @ concat xs @ post = (pre @ concat (take i xs)) @ xs ! i @ (concat (drop (Suc i) xs) @ post)"
    by simp
  have "\<forall>x \<in> set (take i xs). length x = n"
    using assms(1) by (auto dest: in_set_takeD)
  then have "length (concat (take i xs)) = n * length (take i xs)"
    by (rule length_concat_uniform)
  then show "length (pre @ concat (take i xs)) = length pre + n * i"
    using assms(2) by (simp add: min_def)
qed

lemma read_chunk:
  assumes "\<forall>x \<in> set xs. length x = n" "i < length xs" "q + w \<le> n"
  shows "take w (drop (length pre + n * i + q) (pre @ concat xs @ post)) = take w (drop q (xs ! i))"
proof -
  have "q + w \<le> length (xs ! i)" using assms by simp
  then have "take w (drop (length (pre @ concat (take i xs)) + q)
                 ((pre @ concat (take i xs)) @ xs ! i @ (concat (drop (Suc i) xs) @ post)))
        = take w (drop q (xs ! i))"
    by (rule read_mid)
  then show ?thesis
    using split_chunks(1) [OF assms(1,2)] split_chunks(2) [OF assms(1,2)] by simp
qed

lemma write_chunk:
  assumes "\<forall>x \<in> set xs. length x = n" "i < length xs" "q + length bs \<le> n"
  shows "write_at (pre @ concat xs @ post) (length pre + n * i + q) bs
           = pre @ concat (xs[i := write_at (xs ! i) q bs]) @ post"
proof -
  have "q + length bs \<le> length (xs ! i)" using assms by simp
  then have "write_at ((pre @ concat (take i xs)) @ xs ! i @ (concat (drop (Suc i) xs) @ post))
                (length (pre @ concat (take i xs)) + q) bs
        = (pre @ concat (take i xs)) @ write_at (xs ! i) q bs @ (concat (drop (Suc i) xs) @ post)"
    by (rule write_mid)
  moreover have "xs[i := write_at (xs ! i) q bs] = take i xs @ write_at (xs ! i) q bs # drop (Suc i) xs"
    using assms(2) by (simp add: upd_conv_take_nth_drop)
  then have "concat (xs[i := write_at (xs ! i) q bs])
       = concat (take i xs) @ write_at (xs ! i) q bs @ concat (drop (Suc i) xs)"
    by simp
  ultimately show ?thesis
    using split_chunks(1) [OF assms(1,2)] split_chunks(2) [OF assms(1,2)] by simp
qed

subsection \<open>The accessors on a page with a header\<close>

lemma length_node_header [simp]: "length (node_header ty rt par num lnk) = 14"
  by (simp add: node_header_def)

lemma unpack_from_uint_ok:
  "off + w \<le> length buf \<Longrightarrow> unpack_from_uint w buf (int off) = Inr (le_int (take w (drop off buf)))"
  by (simp add: unpack_from_uint_def struct_offset_def Let_def)

lemma pack_into_uint_ok:
  "off + w \<le> length buf \<Longrightarrow> 0 \<le> v \<Longrightarrow> v < 256 ^ w \<Longrightarrow>
   pack_into_uint w buf (int off) v = Inr (write_at buf off (le_bytes w v))"
  by (simp add: pack_into_uint_def struct_offset_def Let_def)

lemma pack_into_uint_range:
  "v < 0 \<or> 256 ^ w \<le> v \<Longrightarrow> pack_into_uint w buf offset v = Inl StructError"
  by (auto simp: pack_into_uint_def)

lemma hdr_get_node_type:
  "get_node_type (node_header ty rt par num lnk @ body) =
     (if ty mod 256 = 0 then Inr INTERNAL else if ty mod 256 = 1 then Inr LEAF else Inl ValueError)"
  using unpack_from_uint_ok [of 0 1 "node_header ty rt par num lnk @ body"]
  by (simp add: get_node_type_def NODE_TYPE_OFFSET_def node_header_def le_int_le_bytes_mod)

lemma hdr_is_node_root:
  "is_node_root (node_header ty rt par num lnk @ body) = Inr (rt mod 256 \<noteq> 0)"
  using unpack_from_uint_ok [of 1 1 "node_header ty rt par num lnk @ body"]
  by (simp add: is_node_root_def IS_ROOT_OFFSET_def NODE_TYPE_SIZE_def node_header_def le_int_le_bytes_mod)

lemma hdr_node_parent:
  "node_parent (node_header ty rt par num lnk @ body) = Inr (par mod 4294967296)"
  using unpack_from_uint_ok [of 2 4 "node_header ty rt par num lnk @ body"]
  by (simp add: node_parent_def layout_defs node_header_def le_int_le_bytes_mod)

lemma hdr_num:
  "leaf_node_num_cells (node_header ty rt par num lnk @ body) = Inr (num mod 4294967296)"
  "internal_node_num_keys (node_header ty rt par num lnk @ body) = Inr (num mod 4294967296)"
  using unpack_from_uint_ok [of 6 4 "node_header ty rt par num lnk @ body"]
  by (simp_all add: leaf_node_num_cells_def internal_node_num_keys_def layout_defs node_header_def le_int_le_bytes_mod)

lemma hdr_link:
  "leaf_node_next_leaf (node_header ty rt par num lnk @ body) = Inr (lnk mod 4294967296)"
  "internal_node_right_child (node_header ty rt par num lnk @ body) = Inr (lnk mod 4294967296)"
  using unpack_from_uint_ok [of 10 4 "node_header ty rt par num lnk @ body"]
  by (simp_all add: leaf_node_next_leaf_def internal_node_right_child_def layout_defs node_header_def le_int_le_bytes_mod)

lemma hdr_set_node_type:
  "set_node_type (node_header ty rt par num lnk @ body) t =
     Inr (node_header (case t of INTERNAL \<Rightarrow> 0 | LEAF \<Rightarrow> 1) rt par num lnk @ body)"
  using pack_into_uint_ok [of 0 1 "node_header ty rt par num lnk @ body" "case t of INTERNAL \<Rightarrow> 0 | LEAF \<Rightarrow> 1"]
  by (cases t) (simp_all add: set_node_type_def NODE_TYPE_OFFSET_def node_header_def write_at_def)

lemma hdr_set_node_root:
  "set_node_root (node_header ty rt par num lnk @ body) b =
     Inr (node_header ty (if b then 1 else 0) par num lnk @ body)"
  using pack_into_uint_ok [of 1 1 "node_header ty rt par num lnk @ body" "if b then 1 else 0"]
  by (simp add: set_node_root_def IS_ROOT_OFFSET_def NODE_TYPE_SIZE_def node_header_def write_at_def)

lemma hdr_set_node_parent:
  "0 \<le> v \<Longrightarrow> v < 4294967296 \<Longrightarrow>
   set_node_parent (node_header ty rt par num lnk @ body) v = Inr (node_header ty rt v num lnk @ body)"
  using pack_into_uint_ok [of 2 4 "node_header ty rt par num lnk @ body" v]
  by (simp add: set_node_parent_def layout_defs node_header_def write_at_def)

lemma hdr_set_num:
  "0 \<le> v \<Longrightarrow> v < 4294967296 \<Longrightarrow>
   set_leaf_node_num_cells (node_header ty rt par num lnk @ body) v = Inr (node_header ty rt par v lnk @ body)"
  "0 \<le> v \<Longrightarrow> v < 4294967296 \<Longrightarrow>
   set_internal_node_num_keys (node_header ty rt par num lnk @ body) v = Inr (node_header ty rt par v lnk @ body)"
  using pack_into_uint_ok [of 6 4 "node_header ty rt par num lnk @ body" v]
  by (simp_all add: set_leaf_node_num_cells_def set_internal_node_num_keys_def layout_defs node_header_def write_at_def)

lemma hdr_set_link:
  "0 \<le> v \<Longrightarrow> v < 4294967296 \<Longrightarrow>
   set_leaf_node_next_leaf (node_header ty rt par num lnk @ body) v = Inr (node_header ty rt par num v @ body)"
  "0 \<le> v \<Longrightarrow> v < 4294967296 \<Longrightarrow>
   set_internal_node_right_child (node_header ty rt par num lnk @ body) v = Inr (node_header ty rt par num v @ body)"
  using pack_into_uint_ok [of 10 4 "node_header ty rt par num lnk @ body" v]
  by (simp_all add: set_leaf_node_next_leaf_def set_internal_node_right_child_def layout_defs node_header_def write_at_def)

lemma hdr_initialize_leaf_node:
  "initialize_leaf_node (node_header ty rt par num lnk @ body) = Inr (node_header 1 0 par 0 0 @ body)"
  by (simp add: initialize_leaf_node_def hdr_set_node_type hdr_set_node_root hdr_set_num hdr_set_link)

lemma hdr_initialize_internal_node:
  "initialize_internal_node (node_header ty rt par num lnk @ body) =
     Inr (node_header 0 0 par 0 INVALID_PAGE_NUM @ body)"
  by (simp add: initialize_internal_node_def hdr_set_node_type hdr_set_node_root hdr_set_num hdr_set_link
        INVALID_PAGE_NUM_def)

subsection \<open>The accessors on a leaf page\<close>

lemma length_row_bytes [simp]: "length (row_bytes i u e) = 291"
  by (simp add: row_bytes_def COLUMN_USERNAME_SIZE_def COLUMN_EMAIL_SIZE_def)

lemma length_leaf_cell: "length (snd c) = 291 \<Longrightarrow> length (leaf_cell c) = 295"
  by (simp add: leaf_cell_def)

lemma wf_cells_uniform: "wf_cells cells \<Longrightarrow> \<forall>x \<in> set (map leaf_cell cells). length x = 295"
  by (auto simp: wf_cells_def list_all_iff length_leaf_cell)

lemma wf_cells_nth: "wf_cells cells \<Longrightarrow> i < length cells \<Longrightarrow> length (snd (cells ! i)) = 291"
  by (simp add: wf_cells_def list_all_length)

lemma wf_cells_update:
  "wf_cells cells \<Longrightarrow> length (snd c) = 291 \<Longrightarrow> wf_cells (cells[i := c])"
  by (auto simp: wf_cells_def list_all_iff dest!: set_update_subset_insert [THEN subsetD])

lemma length_leaf_page:
  "wf_cells cells \<Longrightarrow> length (leaf_page ty rt par num lnk cells tail) = 14 + 295 * length cells + length tail"
  using length_concat_uniform [OF wf_cells_uniform, of cells]
  by (simp add: leaf_page_def)

lemma leaf_cell_offset_nat:
  "0 \<le> i \<Longrightarrow> leaf_node_cell_offset i = int (14 + 295 * nat i)"
  by (simp add: leaf_node_cell_offset_def layout_defs)

lemma leaf_read:
  assumes "wf_cells cells" "i < length cells" "q + w \<le> 295"
  shows "take w (drop (14 + 295 * i + q) (leaf_page ty rt par num lnk cells tail))
           = take w (drop q (leaf_cell (cells ! i)))"
  using read_chunk [OF wf_cells_uniform [OF assms(1)], of i q w "node_header ty rt par num lnk" tail] assms
  by (simp add: leaf_page_def)

lemma leaf_write:
  assumes "wf_cells cells" "i < length cells" "q + length bs \<le> 295"
  shows "write_at (leaf_page ty rt par num lnk cells tail) (14 + 295 * i + q) bs
           = node_header ty rt par num lnk
             @ concat ((map leaf_cell cells)[i := write_at (leaf_cell (cells ! i)) q bs]) @ tail"
  using write_chunk [OF wf_cells_uniform [OF assms(1)], of i q bs "node_header ty rt par num lnk" tail] assms
  by (simp add: leaf_page_def)

lemma leaf_write_key:
  assumes "wf_cells cells" "i < length cells"
  shows "write_at (leaf_page ty rt par num lnk cells tail) (14 + 295 * i) (le_bytes 4 k)
           = leaf_page ty rt par num lnk (cells[i := (k, snd (cells ! i))]) tail"
proof -
  have "write_at (leaf_cell (cells ! i)) 0 (le_bytes 4 k) = leaf_cell (k, snd (cells ! i))"
    by (simp add: write_at_def leaf_cell_def)
  then show ?thesis
    using leaf_write [OF assms, of 0 "le_bytes 4 k"] by (simp add: leaf_page_def map_update)
qed

lemma leaf_write_value:
  assumes "wf_cells cells" "i < length cells" "length v = 291"
  shows "write_at (leaf_page ty rt par num lnk cells tail) (14 + 295 * i + 4) v
           = leaf_page ty rt par num lnk (cells[i := (fst (cells ! i), v)]) tail"
proof -
  have "write_at (leaf_cell (cells ! i)) 4 v = leaf_cell (fst (cells ! i), v)"
    using wf_cells_nth [OF assms(1,2)] assms(3) by (simp add: write_at_def leaf_cell_def)
  then show ?thesis
    using leaf_write [OF assms(1,2), of 4 v] assms(3) by (simp add: leaf_page_def map_update)
qed

lemma leaf_write_cell:
  assumes "wf_cells cells" "i < length cells" "length (snd c) = 291"
  shows "write_at (leaf_page ty rt par num lnk cells tail) (14 + 295 * i) (leaf_cell c)
           = leaf_page ty rt par num lnk (cells[i := c]) tail"
proof -
  have "length (leaf_cell (cells ! i)) = 295"
    using wf_cells_nth [OF assms(1,2)] by (rule length_leaf_cell)
  then have "write_at (leaf_cell (cells ! i)) 0 (leaf_cell c) = leaf_cell c"
    using length_leaf_cell [OF assms(3)] by (simp add: write_at_def)
  then show ?thesis
    using leaf_write [OF assms(1,2), of 0 "leaf_cell c"] length_leaf_cell [OF assms(3)]
    by (simp add: leaf_page_def map_update)
qed

lemma leaf_page_key:
  assumes "wf_cells cells" "0 \<le> i" "nat i < length cells"
  shows "leaf_node_key (leaf_page ty rt par num lnk cells tail) i = Inr (fst (cells ! nat i) mod 4294967296)"
proof -
  have "14 + 295 * nat i + 4 \<le> length (leaf_page ty rt par num lnk cells tail)"
    using assms by (simp add: length_leaf_page)
  then have "leaf_node_key (leaf_page ty rt par num lnk cells tail) i
        = Inr (le_int (take 4 (drop (14 + 295 * nat i) (leaf_page ty rt par num lnk cells tail))))"
    unfolding leaf_node_key_def leaf_cell_offset_nat [OF assms(2)] by (rule unpack_from_uint_ok)
  moreover have "take 4 (drop (14 + 295 * nat i) (leaf_page ty rt par num lnk cells tail)) = le_bytes 4 (fst (cells ! nat i))"
    using leaf_read [OF assms(1,3), of 0 4] by (simp add: leaf_cell_def)
  ultimately show ?thesis by (simp add: le_int_le_bytes_mod)
qed

lemma leaf_page_set_key:
  assumes "wf_cells cells" "0 \<le> i" "nat i < length cells" "0 \<le> k" "k < 4294967296"
  shows "set_leaf_node_key (leaf_page ty rt par num lnk cells tail) i k
           = Inr (leaf_page ty rt par num lnk (cells[nat i := (k, snd (cells ! nat i))]) tail)"
proof -
  have "14 + 295 * nat i + 4 \<le> length (leaf_page ty rt par num lnk cells tail)"
    using assms by (simp add: length_leaf_page)
  then have "set_leaf_node_key (leaf_page ty rt par num lnk cells tail) i k
        = Inr (write_at (leaf_page ty rt par num lnk cells tail) (14 + 295 * nat i) (le_bytes 4 k))"
    unfolding set_leaf_node_key_def leaf_cell_offset_nat [OF assms(2)]
    using assms(4,5) by (intro pack_into_uint_ok) simp_all
  then show ?thesis by (simp add: leaf_write_key [OF assms(1,3)])
qed

lemma py_slice_nat:
  "a + n \<le> length xs \<Longrightarrow> py_slice xs (int a) (int a + int n) = take n (drop a xs)"
  by (simp add: py_slice_def slice_bound_def Let_def min_def nat_int_add)

lemma py_slice_assign_nat:
  "a + length ys \<le> length xs \<Longrightarrow>
   py_slice_assign xs (int a) (int a + int (length ys)) ys = write_at xs a ys"
  by (simp add: py_slice_assign_def slice_bound_def Let_def min_def max_def write_at_def nat_int_add)

lemma leaf_page_hdr:
  "get_node_type (leaf_page ty rt par num lnk cells tail) =
     (if ty mod 256 = 0 then Inr INTERNAL else if ty mod 256 = 1 then Inr LEAF else Inl ValueError)"
  "is_node_root (leaf_page ty rt par num lnk cells tail) = Inr (rt mod 256 \<noteq> 0)"
  "node_parent (leaf_page ty rt par num lnk cells tail) = Inr (par mod 4294967296)"
  "leaf_node_num_cells (leaf_page ty rt par num lnk cells tail) = Inr (num mod 4294967296)"
  "leaf_node_next_leaf (leaf_page ty rt par num lnk cells tail) = Inr (lnk mod 4294967296)"
  by (simp_all add: leaf_page_def hdr_get_node_type hdr_is_node_root hdr_node_parent hdr_num hdr_link)

lemma leaf_page_set_hdr:
  "set_node_root (leaf_page ty rt par num lnk cells tail) b
     = Inr (leaf_page ty (if b then 1 else 0) par num lnk cells tail)"
  "0 \<le> v \<Longrightarrow> v < 4294967296 \<Longrightarrow>
   set_node_parent (leaf_page ty rt par num lnk cells tail) v = Inr (leaf_page ty rt v num lnk cells tail)"
  "0 \<le> v \<Longrightarrow> v < 4294967296 \<Longrightarrow>
   set_leaf_node_num_cells (leaf_page ty rt par num lnk cells tail) v = Inr (leaf_page ty rt par v lnk cells tail)"
  "0 \<le> v \<Longrightarrow> v < 4294967296 \<Longrightarrow>
   set_leaf_node_next_leaf (leaf_page ty rt par num lnk cells tail) v = Inr (leaf_page ty rt par num v cells tail)"
  "initialize_leaf_node (leaf_page ty rt par num lnk cells tail) = Inr (leaf_page 1 0 par 0 0 cells tail)"
  by (simp_all add: leaf_page_def hdr_set_node_root hdr_set_node_parent hdr_set_num hdr_set_link
        hdr_initialize_leaf_node)

lemma leaf_page_pack_key:
  assumes "wf_cells cells" "0 \<le> i" "nat i < length cells" "0 \<le> k" "k < 4294967296"
  shows "pack_into_uint 4 (leaf_page ty rt par num lnk cells tail) (leaf_node_cell_offset i) k
           = Inr (leaf_page ty rt par num lnk (cells[nat i := (k, snd (cells ! nat i))]) tail)"
  using leaf_page_set_key [OF assms] by (simp add: set_leaf_node_key_def)

lemma leaf_page_pack_key_range:
  "k < 0 \<or> 4294967296 \<le> k \<Longrightarrow> set_leaf_node_key node i k = Inl StructError"
  by (simp add: set_leaf_node_key_def pack_into_uint_range)

lemma serialize_row_ok:
  assumes "encode_ascii (username r) = Inr ub" "encode_ascii (email r) = Inr eb"
    and "0 \<le> row_id r" "row_id r < 4294967296"
    and "off + 291 \<le> length page"
  shows "serialize_row r page (int off) = Inr (write_at page off (row_bytes (row_id r) ub eb))"
  using assms
  by (simp add: serialize_row_def pack_into_row_def struct_offset_def Let_def row_bytes_def ROW_SIZE_def
        COLUMN_USERNAME_SIZE_def COLUMN_EMAIL_SIZE_def)

lemma serialize_row_encode_error:
  "encode_ascii (username r) = Inl e \<Longrightarrow> serialize_row r page offset = Inl e"
  by (simp add: serialize_row_def)

lemma leaf_value_offset_nat:
  "0 \<le> i \<Longrightarrow> leaf_node_value_offset i = int (14 + 295 * nat i + 4)"
  by (simp add: leaf_node_value_offset_def leaf_node_cell_offset_def layout_defs)

lemma leaf_page_serialize_row:
  assumes "wf_cells cells" "0 \<le> i" "nat i < length cells"
    and "encode_ascii (username r) = Inr ub" "encode_ascii (email r) = Inr eb"
    and "0 \<le> row_id r" "row_id r < 4294967296"
  shows "serialize_row r (leaf_page ty rt par num lnk cells tail) (leaf_node_value_offset i)
           = Inr (leaf_page ty rt par num lnk
                    (cells[nat i := (fst (cells ! nat i), row_bytes (row_id r) ub eb)]) tail)"
proof -
  have "14 + 295 * nat i + 4 + 291 \<le> length (leaf_page ty rt par num lnk cells tail)"
    using assms(1,3) by (simp add: length_leaf_page)
  then have "serialize_row r (leaf_page ty rt par num lnk cells tail) (int (14 + 295 * nat i + 4))
       = Inr (write_at (leaf_page ty rt par num lnk cells tail) (14 + 295 * nat i + 4)
                (row_bytes (row_id r) ub eb))"
    using assms(4-7) by (intro serialize_row_ok)
  then show ?thesis
    by (simp only: leaf_value_offset_nat [OF assms(2)] leaf_write_value [OF assms(1,3) length_row_bytes])
qed

lemma leaf_page_serialize_row_at_key:
  assumes "wf_cells cells" "0 \<le> i" "nat i < length cells"
    and "encode_ascii (username r) = Inr ub" "encode_ascii (email r) = Inr eb"
    and "0 \<le> row_id r" "row_id r < 4294967296"
  shows "serialize_row r (leaf_page ty rt par num lnk cells tail) (leaf_node_cell_offset i + LEAF_NODE_KEY_SIZE)
           = Inr (leaf_page ty rt par num lnk
                    (cells[nat i := (fst (cells ! nat i), row_bytes (row_id r) ub eb)]) tail)"
  using leaf_page_serialize_row [OF assms] by (simp add: leaf_node_value_offset_def)

lemma leaf_page_cell_slice:
  assumes "wf_cells cells" "0 \<le> i" "nat i < length cells"
  shows "py_slice (leaf_page ty rt par num lnk cells tail) (leaf_node_cell_offset i)
           (leaf_node_cell_offset i + LEAF_NODE_CELL_SIZE) = leaf_cell (cells ! nat i)"
proof -
  have len: "(14 + 295 * nat i) + 295 \<le> length (leaf_page ty rt par num lnk cells tail)"
    using assms(1,3) by (simp add: length_leaf_page)
  have "py_slice (leaf_page ty rt par num lnk cells tail) (int (14 + 295 * nat i))
           (int (14 + 295 * nat i) + int 295)
        = take 295 (drop (14 + 295 * nat i) (leaf_page ty rt par num lnk cells tail))"
    using len by (rule py_slice_nat)
  also have "\<dots> = take 295 (drop 0 (leaf_cell (cells ! nat i)))"
    using leaf_read [OF assms(1,3), of 0 295] by simp
  also have "\<dots> = leaf_cell (cells ! nat i)"
    using length_leaf_cell [OF wf_cells_nth [OF assms(1,3)]] by simp
  finally show ?thesis
    unfolding leaf_cell_offset_nat [OF assms(2)] by (simp add: layout_defs)
qed

lemma leaf_page_value_slice:
  assumes "wf_cells cells" "0 \<le> i" "nat i < length cells"
  shows "py_slice (leaf_page ty rt par num lnk cells tail) (leaf_node_value_offset i)
           (leaf_node_value_offset i + ROW_SIZE) = snd (cells ! nat i)"
proof -
  have len: "(14 + 295 * nat i + 4) + 291 \<le> length (leaf_page ty rt par num lnk cells tail)"
    using assms(1,3) by (simp add: length_leaf_page)
  have "py_slice (leaf_page ty rt par num lnk cells tail) (int (14 + 295 * nat i + 4))
           (int (14 + 295 * nat i + 4) + int 291)
        = take 291 (drop (14 + 295 * nat i + 4) (leaf_page ty rt par num lnk cells tail))"
    using len by (rule py_slice_nat)
  also have "\<dots> = take 291 (drop 4 (leaf_cell (cells ! nat i)))"
    using leaf_read [OF assms(1,3), of 4 291] by simp
  also have "\<dots> = snd (cells ! nat i)"
    using wf_cells_nth [OF assms(1,3)] by (simp add: leaf_cell_def)
  finally show ?thesis
    unfolding leaf_value_offset_nat [OF assms(2)] by (simp add: layout_defs)
qed

lemma leaf_page_copy_cell:
  assumes "wf_cells cells" "0 \<le> i" "nat i < length cells" "length (snd c) = 291"
  shows "py_slice_assign (leaf_page ty rt par num lnk cells tail) (leaf_node_cell_offset i)
           (leaf_node_cell_offset i + LEAF_NODE_CELL_SIZE) (leaf_cell c)
         = leaf_page ty rt par num lnk (cells[nat i := c]) tail"
proof -
  have lc: "length (leaf_cell c) = 295" using assms(4) by (rule length_leaf_cell)
  have len: "(14 + 295 * nat i) + length (leaf_cell c) \<le> length (leaf_page ty rt par num lnk cells tail)"
    using assms(1,3) lc by (simp add: length_leaf_page)
  have "py_slice_assign (leaf_page ty rt par num lnk cells tail) (int (14 + 295 * nat i))
           (int (14 + 295 * nat i) + int (length (leaf_cell c))) (leaf_cell c)
        = write_at (leaf_page ty rt par num lnk cells tail) (14 + 295 * nat i) (leaf_cell c)"
    using len by (rule py_slice_assign_nat)
  then show ?thesis
    unfolding leaf_cell_offset_nat [OF assms(2)] leaf_write_cell [OF assms(1,3,4)] lc
    by (simp add: layout_defs)
qed

subsection \<open>Pages of the table\<close>

lemma le_bytes_zero: "le_bytes n 0 = replicate n 0"
  by (simp add: le_bytes_def map_replicate_const)

lemma wf_zero_cells [simp]: "wf_cells zero_cells" "length zero_cells = 13"
  by (simp_all add: zero_cells_def wf_cells_def list_all_iff)

lemma zero_page_leaf: "replicate 4096 (0::byte) = leaf_page 0 0 0 0 0 zero_cells (replicate 247 0)"
proof (rule sym, rule replicate_eqI)
  show "length (leaf_page 0 0 0 0 0 zero_cells (replicate 247 0)) = 4096"
    by (simp add: length_leaf_page)
next
  fix y assume "y \<in> set (leaf_page 0 0 0 0 0 zero_cells (replicate 247 0))"
  then show "y = 0"
    by (auto simp: leaf_page_def node_header_def le_bytes_zero zero_cells_def leaf_cell_def)
qed

lemma table_get_page_cached:
  "pages t n = Some page \<Longrightarrow> n \<le> 400 \<Longrightarrow> table_get_page t n = Inr t"
  by (simp add: table_get_page_def get_page_def TABLE_MAX_PAGES_def)

lemma table_get_page_fresh:
  "pages t n = None \<Longrightarrow> num_pages t \<le> n \<Longrightarrow> n \<le> 400 \<Longrightarrow>
   table_get_page t n = Inr (t\<lparr>pages := (pages t)(n \<mapsto> replicate 4096 0), num_pages := n + 1\<rparr>)"
  by (simp add: table_get_page_def get_page_def TABLE_MAX_PAGES_def PAGE_SIZE_def Let_def)

lemma table_get_page_out_of_bounds:
  "400 < n \<Longrightarrow> table_get_page t n = Inl (SysExit 1)"
  by (simp add: table_get_page_def get_page_def TABLE_MAX_PAGES_def)

lemma node_at_cached: "pages t n = Some page \<Longrightarrow> node_at t n = page"
  by (simp add: node_at_def)

lemma update_node_cached:
  "pages t n = Some page \<Longrightarrow> update_node t n f = ebind (f page) (\<lambda>page'. Inr (t\<lparr>pages := (pages t)(n \<mapsto> page')\<rparr>))"
  by (simp add: update_node_def node_at_def)

lemma table_init_fresh: "table_init [] = Inr fresh_table"
  by (simp add: table_init_def empty_pager_init empty_pager_def table_get_page_fresh
        update_node_cached zero_page_leaf leaf_page_set_hdr fresh_table_def)


subsection \<open>Accepted lines that raise\<close>

lemma big_id_line_prepare:
  "prepare_statement big_id_line \<lparr>stmt_type = None, row_to_insert = None\<rparr> =
     (PREPARE_SUCCESS, \<lparr>stmt_type = Some INSERT, row_to_insert = Some big_id_row\<rparr>)"
  by code_simp

lemma non_ascii_line_prepare:
  "prepare_statement non_ascii_line \<lparr>stmt_type = None, row_to_insert = None\<rparr> =
     (PREPARE_SUCCESS, \<lparr>stmt_type = Some INSERT, row_to_insert = Some non_ascii_row\<rparr>)"
  by code_simp

lemma leaf_find_loop_empty: "leaf_find_loop node key 0 0 = Some (Inr 0)"
  by (subst leaf_find_loop.simps) simp

lemma table_find_fresh:
  "table_find d fresh_table key =
     Inr (\<lparr>cursor_page_num = 0, cursor_cell_num = 0, end_of_table = False\<rparr>, fresh_table)"
  by (simp add: table_find_def root_page_num_def fresh_table_def table_get_page_def get_page_def
        TABLE_MAX_PAGES_def node_at_def leaf_page_hdr leaf_node_find_def leaf_find_loop_empty)

lemma encode_non_ascii: "encode_ascii [CHR 0xE9] = Inl UnicodeEncodeError"
  by (simp add: encode_ascii_def)

lemma execute_insert_non_ascii:
  "execute_insert d non_ascii_row fresh_table = Inl UnicodeEncodeError"
  by (simp add: execute_insert_def Let_def table_find_fresh non_ascii_row_def)
     (simp add: fresh_table_def table_get_page_def get_page_def TABLE_MAX_PAGES_def node_at_def
        leaf_page_hdr leaf_node_insert_def update_node_def leaf_page_set_hdr leaf_page_set_key
        LEAF_NODE_MAX_CELLS_def layout_defs serialize_row_def encode_non_ascii)

lemma execute_insert_big_id:
  "execute_insert d big_id_row fresh_table = Inl StructError"
  by (simp add: execute_insert_def Let_def table_find_fresh big_id_row_def)
     (simp add: fresh_table_def table_get_page_def get_page_def TABLE_MAX_PAGES_def node_at_def
        leaf_page_hdr leaf_node_insert_def update_node_def leaf_page_set_hdr leaf_page_pack_key_range
        LEAF_NODE_MAX_CELLS_def layout_defs)

text \<open>C10. The parser accepts the line with the id \<open>4294967296\<close> and the line whose
  username is the character U+00E9, and on the table of a new database
  \<open>execute_insert\<close> of their rows raises: \<open>UnicodeEncodeError\<close>, which only the encoding
  in \<open>serialize_row\<close> raises, for the username, and \<open>struct.error\<close> for the id.\<close>

theorem accepted_lines_raise:
  "table_init [] = Inr fresh_table
   \<and> prepare_statement non_ascii_line \<lparr>stmt_type = None, row_to_insert = None\<rparr> =
       (PREPARE_SUCCESS, \<lparr>stmt_type = Some INSERT, row_to_insert = Some non_ascii_row\<rparr>)
   \<and> length (username non_ascii_row) \<le> 32
   \<and> execute_insert d non_ascii_row fresh_table = Inl UnicodeEncodeError
   \<and> serialize_row non_ascii_row page offset = Inl UnicodeEncodeError
   \<and> prepare_statement big_id_line \<lparr>stmt_type = None, row_to_insert = None\<rparr> =
       (PREPARE_SUCCESS, \<lparr>stmt_type = Some INSERT, row_to_insert = Some big_id_row\<rparr>)
   \<and> execute_insert d big_id_row fresh_table = Inl StructError"
  by (simp add: table_init_fresh non_ascii_line_prepare big_id_line_prepare
        execute_insert_non_ascii execute_insert_big_id)
     (simp add: non_ascii_row_def serialize_row_def encode_non_ascii)

subsection \<open>Splitting a leaf\<close>

lemma copy_leaf_cell_pages:
  assumes "wf_cells cells" "0 \<le> j" "nat j < length cells"
    and "wf_cells cells'" "0 \<le> i" "nat i < length cells'"
  shows "copy_leaf_cell (leaf_page ty rt par num lnk cells tail) (leaf_node_cell_offset j)
           (leaf_node_cell_offset i) (leaf_page ty' rt' par' num' lnk' cells' tail')
         = Inr (leaf_page ty' rt' par' num' lnk' (cells'[nat i := cells ! nat j]) tail')"
  unfolding copy_leaf_cell_def Let_def leaf_page_cell_slice [OF assms(1-3)]
  using leaf_page_copy_cell [OF assms(4-6) wf_cells_nth [OF assms(1,3)]] by simp

lemma wf_cells_Cons [simp]: "wf_cells (c # cs) \<longleftrightarrow> length (snd c) = 291 \<and> wf_cells cs"
  by (simp add: wf_cells_def)

lemma wf_cells_Nil [simp]: "wf_cells []"
  by (simp add: wf_cells_def)

lemma zero_cells_list:
  "zero_cells = [(0, replicate 291 0), (0, replicate 291 0), (0, replicate 291 0), (0, replicate 291 0),
     (0, replicate 291 0), (0, replicate 291 0), (0, replicate 291 0), (0, replicate 291 0),
     (0, replicate 291 0), (0, replicate 291 0), (0, replicate 291 0), (0, replicate 291 0),
     (0, replicate 291 0)]"
  by (simp add: zero_cells_def numeral_eq_Suc)

lemma range_down_split: "py_range_down 13 (-1) = [13, 12, 11, 10, 9, 8, 7, 6, 5, 4, 3, 2, 1, 0]"
  by code_simp

lemma list13:
  assumes "length xs = 13"
  obtains x0 x1 x2 x3 x4 x5 x6 x7 x8 x9 x10 x11 x12
  where "xs = [x0, x1, x2, x3, x4, x5, x6, x7, x8, x9, x10, x11, x12]"
  using assms by (auto simp: length_Suc_conv numeral_eq_Suc)

lemma layout_values:
  "LEAF_NODE_MAX_CELLS = 13" "LEAF_NODE_LEFT_SPLIT_COUNT = 7" "LEAF_NODE_RIGHT_SPLIT_COUNT = 7"
  "LEAF_NODE_KEY_SIZE = 4" "LEAF_NODE_CELL_SIZE = 295" "LEAF_NODE_HEADER_SIZE = 14" "ROW_SIZE = 291"
  "INTERNAL_NODE_MAX_KEYS = 3" "INTERNAL_NODE_HEADER_SIZE = 14" "INTERNAL_NODE_CELL_SIZE = 8"
  "INTERNAL_NODE_CHILD_SIZE = 4" "TABLE_MAX_PAGES = 400" "PAGE_SIZE = 4096"
  "INVALID_PAGE_NUM = 4294967295"
  by (simp_all add: layout_defs)

lemma leaf_page_serialize_row_4:
  assumes "wf_cells cells" "0 \<le> i" "nat i < length cells"
    and "encode_ascii (username r) = Inr ub" "encode_ascii (email r) = Inr eb"
    and "0 \<le> row_id r" "row_id r < 4294967296"
  shows "serialize_row r (leaf_page ty rt par num lnk cells tail) (leaf_node_cell_offset i + 4)
           = Inr (leaf_page ty rt par num lnk
                    (cells[nat i := (fst (cells ! nat i), row_bytes (row_id r) ub eb)]) tail)"
  using leaf_page_serialize_row_at_key [OF assms] by (simp add: layout_values)

lemmas split_simps =
  leaf_node_split_cells_def Let_def get_unused_page_num_def table_get_page_def get_page_def
  layout_values zero_page_leaf update_node_def node_at_def
  leaf_page_hdr leaf_page_set_hdr range_down_split leaf_split_move_def
  copy_leaf_cell_pages zero_cells_list leaf_page_pack_key leaf_page_serialize_row_4
  leaf_page_key fun_upd_twist

lemma leaf_node_split_cells_pages:
  assumes old: "pages t pg = Some (leaf_page ty rt par num lnk cells tail)"
      "wf_cells cells" "length cells = 13" "ty mod 256 = 1" "num mod 4294967296 = 13"
    and new: "pages t (num_pages t) = None" "0 \<le> num_pages t" "num_pages t \<le> 400" "pg \<le> 400"
    and cur: "0 \<le> c" "c \<le> 13"
    and row: "0 \<le> key" "key < 4294967296" "0 \<le> row_id r" "row_id r < 4294967296"
      "encode_ascii (username r) = Inr ub" "encode_ascii (email r) = Inr eb"
  shows "leaf_node_split_cells (Suc d) t \<lparr>cursor_page_num = pg, cursor_cell_num = c, end_of_table = e\<rparr> key r
         = Inr (fst (cells ! 12) mod 4294967296, num_pages t,
             t\<lparr>pages := (pages t)
                 (pg \<mapsto> leaf_page ty rt par 7 (num_pages t)
                    (take 7 (take (nat c) cells @ (key, row_bytes (row_id r) ub eb) # drop (nat c) cells)
                     @ drop 7 cells) tail,
                  num_pages t \<mapsto> leaf_page 1 0 (par mod 4294967296) 7 (lnk mod 4294967296)
                    (drop 7 (take (nat c) cells @ (key, row_bytes (row_id r) ub eb) # drop (nat c) cells)
                     @ drop 7 zero_cells) (replicate 247 0)),
               num_pages := num_pages t + 1\<rparr>)"
proof -
  obtain x0 x1 x2 x3 x4 x5 x6 x7 x8 x9 x10 x11 x12
    where xs: "cells = [x0, x1, x2, x3, x4, x5, x6, x7, x8, x9, x10, x11, x12]"
    using old(3) by (rule list13)
  have ne: "pg \<noteq> num_pages t" "num_pages t \<noteq> pg"
    using old(1) new(1) by auto
  note facts = old(1,2,4,5) new row ne
  consider "c = 0" | "c = 1" | "c = 2" | "c = 3" | "c = 4" | "c = 5" | "c = 6" | "c = 7" | "c = 8" | "c = 9" | "c = 10" | "c = 11" | "c = 12" | "c = 13"
    using cur by atomize_elim presburger
  then show ?thesis
  proof cases
  case 1
  then show ?thesis
    using xs facts by (simp add: split_simps)
next
  case 2
  then show ?thesis
    using xs facts by (simp add: split_simps)
next
  case 3
  then show ?thesis
    using xs facts by (simp add: split_simps)
next
  case 4
  then show ?thesis
    using xs facts by (simp add: split_simps)
next
  case 5
  then show ?thesis
    using xs facts by (simp add: split_simps)
next
  case 6
  then show ?thesis
    using xs facts by (simp add: split_simps)
next
  case 7
  then show ?thesis
    using xs facts by (simp add: split_simps)
next
  case 8
  then show ?thesis
    using xs facts by (simp add: split_simps)
next
  case 9
  then show ?thesis
    using xs facts by (simp add: split_simps)
next
  case 10
  then show ?thesis
    using xs facts by (simp add: split_simps)
next
  case 11
  then show ?thesis
    using xs facts by (simp add: split_simps)
next
  case 12
  then show ?thesis
    using xs facts by (simp add: split_simps)
next
  case 13
  then show ?thesis
    using xs facts by (simp add: split_simps)
next
  case 14
  then show ?thesis
    using xs facts by (simp add: split_simps)
  qed
qed

subsection \<open>The accessors on an internal page\<close>

lemma length_internal_cell [simp]: "length (internal_cell c) = 8"
  by (simp add: internal_cell_def)

lemma internal_cells_uniform: "\<forall>x \<in> set (map internal_cell ic). length x = 8"
  by simp

lemma length_internal_page:
  "length (internal_page ty rt par num lnk ic rest) = 14 + 8 * length ic + length rest"
  using length_concat_uniform [OF internal_cells_uniform, of ic]
  by (simp add: internal_page_def)

lemma internal_cell_offset_nat:
  "0 \<le> i \<Longrightarrow> internal_node_cell_offset i = int (14 + 8 * nat i)"
  by (simp add: internal_node_cell_offset_def layout_defs)

lemma internal_read:
  assumes "i < length ic" "q + w \<le> 8"
  shows "take w (drop (14 + 8 * i + q) (internal_page ty rt par num lnk ic rest))
           = take w (drop q (internal_cell (ic ! i)))"
  using read_chunk [OF internal_cells_uniform, of i ic q w "node_header ty rt par num lnk" rest] assms
  by (simp add: internal_page_def)

lemma internal_write:
  assumes "i < length ic" "q + length bs \<le> 8"
  shows "write_at (internal_page ty rt par num lnk ic rest) (14 + 8 * i + q) bs
           = node_header ty rt par num lnk
             @ concat ((map internal_cell ic)[i := write_at (internal_cell (ic ! i)) q bs]) @ rest"
  using write_chunk [OF internal_cells_uniform, of i ic q bs "node_header ty rt par num lnk" rest] assms
  by (simp add: internal_page_def)

lemma internal_page_hdr:
  "get_node_type (internal_page ty rt par num lnk ic rest) =
     (if ty mod 256 = 0 then Inr INTERNAL else if ty mod 256 = 1 then Inr LEAF else Inl ValueError)"
  "is_node_root (internal_page ty rt par num lnk ic rest) = Inr (rt mod 256 \<noteq> 0)"
  "node_parent (internal_page ty rt par num lnk ic rest) = Inr (par mod 4294967296)"
  "internal_node_num_keys (internal_page ty rt par num lnk ic rest) = Inr (num mod 4294967296)"
  "internal_node_right_child (internal_page ty rt par num lnk ic rest) = Inr (lnk mod 4294967296)"
  by (simp_all add: internal_page_def hdr_get_node_type hdr_is_node_root hdr_node_parent hdr_num hdr_link)

lemma internal_page_set_hdr:
  "set_node_root (internal_page ty rt par num lnk ic rest) b
     = Inr (internal_page ty (if b then 1 else 0) par num lnk ic rest)"
  "0 \<le> v \<Longrightarrow> v < 4294967296 \<Longrightarrow>
   set_node_parent (internal_page ty rt par num lnk ic rest) v = Inr (internal_page ty rt v num lnk ic rest)"
  "0 \<le> v \<Longrightarrow> v < 4294967296 \<Longrightarrow>
   set_internal_node_num_keys (internal_page ty rt par num lnk ic rest) v = Inr (internal_page ty rt par v lnk ic rest)"
  "0 \<le> v \<Longrightarrow> v < 4294967296 \<Longrightarrow>
   set_internal_node_right_child (internal_page ty rt par num lnk ic rest) v = Inr (internal_page ty rt par num v ic rest)"
  "initialize_internal_node (internal_page ty rt par num lnk ic rest)
     = Inr (internal_page 0 0 par 0 INVALID_PAGE_NUM ic rest)"
  by (simp_all add: internal_page_def hdr_set_node_root hdr_set_node_parent hdr_set_num hdr_set_link
        hdr_initialize_internal_node)

lemma internal_page_key:
  assumes "0 \<le> i" "nat i < length ic"
  shows "internal_node_key (internal_page ty rt par num lnk ic rest) i = Inr (snd (ic ! nat i) mod 4294967296)"
proof -
  have "(14 + 8 * nat i + 4) + 4 \<le> length (internal_page ty rt par num lnk ic rest)"
    using assms by (simp add: length_internal_page)
  then have "unpack_from_uint 4 (internal_page ty rt par num lnk ic rest) (int (14 + 8 * nat i + 4))
        = Inr (le_int (take 4 (drop (14 + 8 * nat i + 4) (internal_page ty rt par num lnk ic rest))))"
    by (rule unpack_from_uint_ok)
  moreover have "take 4 (drop (14 + 8 * nat i + 4) (internal_page ty rt par num lnk ic rest)) = le_bytes 4 (snd (ic ! nat i))"
    using internal_read [OF assms(2), of 4 4] by (simp add: internal_cell_def)
  ultimately show ?thesis
    unfolding internal_node_key_def internal_cell_offset_nat [OF assms(1)]
    by (simp add: le_int_le_bytes_mod layout_defs)
qed

lemma internal_page_cell_child:
  assumes "0 \<le> i" "nat i < length ic"
  shows "unpack_from_uint 4 (internal_page ty rt par num lnk ic rest) (internal_node_cell_offset i)
           = Inr (fst (ic ! nat i) mod 4294967296)"
proof -
  have "(14 + 8 * nat i) + 4 \<le> length (internal_page ty rt par num lnk ic rest)"
    using assms by (simp add: length_internal_page)
  then have "unpack_from_uint 4 (internal_page ty rt par num lnk ic rest) (int (14 + 8 * nat i))
        = Inr (le_int (take 4 (drop (14 + 8 * nat i) (internal_page ty rt par num lnk ic rest))))"
    by (rule unpack_from_uint_ok)
  moreover have "take 4 (drop (14 + 8 * nat i) (internal_page ty rt par num lnk ic rest)) = le_bytes 4 (fst (ic ! nat i))"
    using internal_read [OF assms(2), of 0 4] by (simp add: internal_cell_def)
  ultimately show ?thesis
    unfolding internal_cell_offset_nat [OF assms(1)]
    by (simp add: le_int_le_bytes_mod)
qed

lemma internal_page_child:
  assumes "0 \<le> i" "nat i < length ic"
  shows "internal_node_child (internal_page ty rt par num lnk ic rest) i =
           (if i > num mod 4294967296 then Inl (SysExit 1)
            else if i = num mod 4294967296 then Inr (lnk mod 4294967296)
            else Inr (fst (ic ! nat i) mod 4294967296))"
  by (simp add: internal_node_child_def internal_page_hdr internal_page_cell_child [OF assms])

lemma internal_page_right_child_as_child:
  "i = num mod 4294967296 \<Longrightarrow>
   internal_node_child (internal_page ty rt par num lnk ic rest) i = Inr (lnk mod 4294967296)"
  by (simp add: internal_node_child_def internal_page_hdr)

lemma internal_page_set_key:
  assumes "0 \<le> i" "nat i < length ic" "0 \<le> k" "k < 4294967296"
  shows "set_internal_node_key (internal_page ty rt par num lnk ic rest) i k
           = Inr (internal_page ty rt par num lnk (ic[nat i := (fst (ic ! nat i), k)]) rest)"
proof -
  have "(14 + 8 * nat i + 4) + 4 \<le> length (internal_page ty rt par num lnk ic rest)"
    using assms by (simp add: length_internal_page)
  then have "pack_into_uint 4 (internal_page ty rt par num lnk ic rest) (int (14 + 8 * nat i + 4)) k
        = Inr (write_at (internal_page ty rt par num lnk ic rest) (14 + 8 * nat i + 4) (le_bytes 4 k))"
    using assms(3,4) by (intro pack_into_uint_ok) simp_all
  moreover have "write_at (internal_cell (ic ! nat i)) 4 (le_bytes 4 k) = internal_cell (fst (ic ! nat i), k)"
    by (simp add: write_at_def internal_cell_def)
  ultimately show ?thesis
    unfolding set_internal_node_key_def internal_cell_offset_nat [OF assms(1)]
    using internal_write [OF assms(2), of 4 "le_bytes 4 k"]
    by (simp add: internal_page_def map_update layout_defs)
qed

lemma internal_page_set_cell_child:
  assumes "0 \<le> i" "nat i < length ic" "0 \<le> c" "c < 4294967296"
  shows "pack_into_uint 4 (internal_page ty rt par num lnk ic rest) (internal_node_cell_offset i) c
           = Inr (internal_page ty rt par num lnk (ic[nat i := (c, snd (ic ! nat i))]) rest)"
proof -
  have "(14 + 8 * nat i) + 4 \<le> length (internal_page ty rt par num lnk ic rest)"
    using assms by (simp add: length_internal_page)
  then have "pack_into_uint 4 (internal_page ty rt par num lnk ic rest) (int (14 + 8 * nat i)) c
        = Inr (write_at (internal_page ty rt par num lnk ic rest) (14 + 8 * nat i) (le_bytes 4 c))"
    using assms(3,4) by (intro pack_into_uint_ok) simp_all
  moreover have "write_at (internal_cell (ic ! nat i)) 0 (le_bytes 4 c) = internal_cell (c, snd (ic ! nat i))"
    by (simp add: write_at_def internal_cell_def)
  ultimately show ?thesis
    unfolding internal_cell_offset_nat [OF assms(1)]
    using internal_write [OF assms(2), of 0 "le_bytes 4 c"]
    by (simp add: internal_page_def map_update)
qed

lemma internal_page_set_child:
  assumes "0 \<le> i" "nat i < length ic" "0 \<le> c" "c < 4294967296"
  shows "set_internal_node_child (internal_page ty rt par num lnk ic rest) i c =
           (if i = num mod 4294967296 then Inr (internal_page ty rt par num c ic rest)
            else Inr (internal_page ty rt par num lnk (ic[nat i := (c, snd (ic ! nat i))]) rest))"
  using assms by (simp add: set_internal_node_child_def internal_page_hdr internal_page_set_hdr
        internal_page_set_cell_child)

lemma internal_page_copy_cell_nat:
  assumes "a < length ic" "b < length ic"
  shows "copy_internal_cell (int b) (int a) (internal_page ty rt par num lnk ic rest)
           = Inr (internal_page ty rt par num lnk (ic[a := ic ! b]) rest)"
proof -
  let ?P = "internal_page ty rt par num lnk ic rest"
  have lj: "(14 + 8 * b) + 8 \<le> length ?P"
    using assms by (simp add: length_internal_page)
  have li: "(14 + 8 * a) + length (internal_cell (ic ! b)) \<le> length ?P"
    using assms by (simp add: length_internal_page)
  have "py_slice ?P (int (14 + 8 * b)) (int (14 + 8 * b) + int 8) = take 8 (drop (14 + 8 * b) ?P)"
    using lj by (rule py_slice_nat)
  also have "\<dots> = internal_cell (ic ! b)"
    using internal_read [OF assms(2), of 0 8] by simp
  finally have sl: "py_slice ?P (int (14 + 8 * b)) (int (14 + 8 * b) + int 8) = internal_cell (ic ! b)" .
  have "py_slice_assign ?P (int (14 + 8 * a)) (int (14 + 8 * a) + int (length (internal_cell (ic ! b))))
            (internal_cell (ic ! b))
        = write_at ?P (14 + 8 * a) (internal_cell (ic ! b))"
    using li by (rule py_slice_assign_nat)
  moreover have "write_at (internal_cell (ic ! a)) 0 (internal_cell (ic ! b)) = internal_cell (ic ! b)"
    by (simp add: write_at_def)
  ultimately have as: "py_slice_assign ?P (int (14 + 8 * a)) (int (14 + 8 * a) + int 8) (internal_cell (ic ! b))
        = internal_page ty rt par num lnk (ic[a := ic ! b]) rest"
    using internal_write [OF assms(1), of 0 "internal_cell (ic ! b)"]
    by (simp add: internal_page_def map_update)
  have off: "internal_node_cell_offset (int a) = int (14 + 8 * a)"
      "internal_node_cell_offset (int b) = int (14 + 8 * b)" "INTERNAL_NODE_CELL_SIZE = int 8"
    by (simp_all add: internal_node_cell_offset_def layout_defs)
  show ?thesis
    unfolding copy_internal_cell_def Let_def off sl as ..
qed

lemma internal_page_copy_cell:
  assumes "0 \<le> i" "nat i < length ic" "0 \<le> j" "nat j < length ic"
  shows "copy_internal_cell j i (internal_page ty rt par num lnk ic rest)
           = Inr (internal_page ty rt par num lnk (ic[nat i := ic ! nat j]) rest)"
  using internal_page_copy_cell_nat [OF assms(2,4), of ty rt par num lnk rest] assms(1,3) by simp

subsection \<open>A leaf page read as an internal page\<close>

lemma icells_of_list:
  "icells_of body =
     [(le_int (take 4 body), le_int (take 4 (drop 4 body))),
      (le_int (take 4 (drop 8 body)), le_int (take 4 (drop 12 body))),
      (le_int (take 4 (drop 16 body)), le_int (take 4 (drop 20 body))),
      (le_int (take 4 (drop 24 body)), le_int (take 4 (drop 28 body)))]"
  by (simp add: icells_of_def upt_rec numeral_eq_Suc)

lemma length_icells_of [simp]: "length (icells_of body) = 4"
  by (simp add: icells_of_def)

lemma le_bytes_le_int_4: "n + 4 \<le> length body \<Longrightarrow> le_bytes 4 (le_int (take 4 (drop n body))) = take 4 (drop n body)"
  using le_bytes_le_int [of "take 4 (drop n body)"] by simp

lemma take_add_4: "take 4 (drop n body) @ drop (n + 4) body = drop n body"
  by (metis add.commute append_take_drop_id drop_drop)

lemma bytes_as_internal:
  assumes "32 \<le> length body"
  shows "concat (map internal_cell (icells_of body)) @ drop 32 body = body"
proof -
  have "concat (map internal_cell (icells_of body)) @ drop 32 body
      = take 4 (drop 0 body) @ take 4 (drop 4 body) @ take 4 (drop 8 body) @ take 4 (drop 12 body)
        @ take 4 (drop 16 body) @ take 4 (drop 20 body) @ take 4 (drop 24 body) @ take 4 (drop 28 body)
        @ drop 32 body"
    using assms le_bytes_le_int_4 [of 0 body]
    by (simp add: icells_of_list internal_cell_def le_bytes_le_int_4)
  also have "\<dots> = drop 0 body"
    using take_add_4 [of 28 body] take_add_4 [of 24 body] take_add_4 [of 20 body]
      take_add_4 [of 16 body] take_add_4 [of 12 body] take_add_4 [of 8 body]
      take_add_4 [of 4 body] take_add_4 [of 0 body]
    by simp
  finally show ?thesis by simp
qed

lemma length_leaf_body:
  "wf_cells cells \<Longrightarrow> length (leaf_body cells tail) = 295 * length cells + length tail"
  using length_concat_uniform [OF wf_cells_uniform, of cells] by (simp add: leaf_body_def)

lemma leaf_page_as_internal:
  assumes "wf_cells cells" "cells \<noteq> []"
  shows "leaf_page ty rt par num lnk cells tail
           = internal_page ty rt par num lnk (icells_of (leaf_body cells tail)) (drop 32 (leaf_body cells tail))"
proof -
  have "32 \<le> length (leaf_body cells tail)"
    using length_leaf_body [OF assms(1), of tail] assms(2) by (cases cells) simp_all
  then show ?thesis
    by (simp add: leaf_page_def internal_page_def bytes_as_internal leaf_body_def [symmetric])
qed

lemma leaf_page_internal_hdr:
  "internal_node_num_keys (leaf_page ty rt par num lnk cells tail) = Inr (num mod 4294967296)"
  "internal_node_right_child (leaf_page ty rt par num lnk cells tail) = Inr (lnk mod 4294967296)"
  "0 \<le> v \<Longrightarrow> v < 4294967296 \<Longrightarrow>
   set_internal_node_num_keys (leaf_page ty rt par num lnk cells tail) v = Inr (leaf_page ty rt par v lnk cells tail)"
  "0 \<le> v \<Longrightarrow> v < 4294967296 \<Longrightarrow>
   set_internal_node_right_child (leaf_page ty rt par num lnk cells tail) v = Inr (leaf_page ty rt par num v cells tail)"
  "initialize_internal_node (leaf_page ty rt par num lnk cells tail)
     = Inr (leaf_page 0 0 par 0 INVALID_PAGE_NUM cells tail)"
  by (simp_all add: leaf_page_def hdr_num hdr_link hdr_set_num hdr_set_link hdr_initialize_internal_node)


lemma leaf_page_set_internal_child:
  assumes "wf_cells cells" "cells \<noteq> []"
  shows "set_internal_node_child (leaf_page ty rt par num lnk cells tail) i c
           = set_internal_node_child
               (internal_page ty rt par num lnk (icells_of (leaf_body cells tail)) (drop 32 (leaf_body cells tail))) i c"
  using leaf_page_as_internal [OF assms] by simp

lemma py_slice_whole [simp]: "py_slice xs 0 (int (length xs)) = xs"
  by (simp add: py_slice_def slice_bound_def Let_def)

lemma py_slice_assign_whole [simp]: "py_slice_assign xs 0 (int (length xs)) ys = ys"
  by (simp add: py_slice_assign_def slice_bound_def Let_def)

lemma get_node_max_key_leaf:
  assumes "pages t n = Some (leaf_page ty rt par num lnk cells tail)" "ty mod 256 = 1"
    "wf_cells cells" "1 \<le> num mod 4294967296" "nat (num mod 4294967296 - 1) < length cells"
  shows "get_node_max_key (Suc d) t n = Inr (fst (cells ! nat (num mod 4294967296 - 1)) mod 4294967296, t)"
  using assms by (simp add: node_at_def leaf_page_hdr leaf_page_key)

lemma create_new_root_leaf:
  assumes root: "pages t 0 = Some (leaf_page ty rt par num lnk cells tail)" "ty mod 256 = 1"
      "wf_cells cells" "cells \<noteq> []" "1 \<le> num mod 4294967296" "nat (num mod 4294967296 - 1) < length cells"
    and right: "pages t rc = Some (leaf_page ty2 rt2 par2 num2 lnk2 cells2 tail2)" "rc \<noteq> 0" "0 \<le> rc" "rc \<le> 400"
    and left: "pages t (num_pages t) = None" "0 < num_pages t" "num_pages t \<le> 400"
  shows "create_new_root (Suc d) t rc
         = Inr (t\<lparr>pages := (pages t)
                 (0 \<mapsto> internal_page 0 1 par 1 rc
                    ((icells_of (leaf_body cells tail))
                       [0 := (num_pages t, fst (cells ! nat (num mod 4294967296 - 1)) mod 4294967296)])
                    (drop 32 (leaf_body cells tail)),
                  num_pages t \<mapsto> leaf_page ty 0 0 num lnk cells tail,
                  rc \<mapsto> leaf_page ty2 rt2 0 num2 lnk2 cells2 tail2),
               num_pages := num_pages t + 1\<rparr>)"
proof -
  have ne: "rc \<noteq> num_pages t" "num_pages t \<noteq> rc" "num_pages t \<noteq> 0" "0 \<noteq> num_pages t"
    using right(1) left(1,2) by auto
  show ?thesis
    using assms ne
    by (simp add: create_new_root_def root_page_num_def Let_def get_unused_page_num_def
        table_get_page_def get_page_def layout_values update_node_def node_at_def
        leaf_page_hdr leaf_page_set_hdr leaf_page_internal_hdr
        leaf_page_key leaf_page_set_internal_child internal_page_set_child
        internal_page_set_hdr internal_page_set_key fun_upd_twist)
qed

subsection \<open>Binary search in a leaf\<close>

lemma leaf_find_loop_correct:
  fixes cells :: "(int \<times> bytes) list"
  defines "ks \<equiv> cell_keys cells"
  assumes wf: "wf_cells cells" and n: "n \<le> length cells"
    and sorted: "\<forall>i j. i < j \<and> j < n \<longrightarrow> ks ! i < ks ! j"
  shows "lo \<le> hi \<Longrightarrow> hi \<le> n \<Longrightarrow> (\<forall>i < lo. ks ! i < key) \<Longrightarrow> (\<forall>i. hi \<le> i \<and> i < n \<longrightarrow> key < ks ! i) \<Longrightarrow>
         \<exists>r. leaf_find_loop (leaf_page ty rt par num lnk cells tail) key (int lo) (int hi) = Some (Inr (int r))
            \<and> r \<le> n
            \<and> ((r < n \<and> ks ! r = key) \<or> ((\<forall>i < r. ks ! i < key) \<and> (\<forall>i. r \<le> i \<and> i < n \<longrightarrow> key < ks ! i)))"
proof (induction "hi - lo" arbitrary: lo hi rule: less_induct)
  case less
  let ?page = "leaf_page ty rt par num lnk cells tail"
  show ?case
  proof (cases "lo = hi")
    case True
    have "leaf_find_loop ?page key (int lo) (int hi) = Some (Inr (int lo))"
      using True by (subst leaf_find_loop.simps) simp
    then show ?thesis
      using True less.prems by auto
  next
    case False
    define m where "m = (lo + hi) div 2"
    have m: "lo \<le> m" "m < hi" "m < n" "m < length cells"
      using False less.prems n by (auto simp: m_def)
    have mid: "(int lo + int hi) div 2 = int m"
      by (simp add: m_def zdiv_int)
    have km: "leaf_node_key ?page (int m) = Inr (ks ! m)"
      using m wf by (simp add: leaf_page_key ks_def cell_keys_def)
    have unfold: "leaf_find_loop ?page key (int lo) (int hi) =
        (if key = ks ! m then Some (Inr (int m))
         else if key < ks ! m then leaf_find_loop ?page key (int lo) (int m)
         else leaf_find_loop ?page key (int m + 1) (int hi))"
      using False by (subst leaf_find_loop.simps) (simp add: mid km)
    show ?thesis
    proof (cases "key = ks ! m")
      case True
      then show ?thesis using unfold m by auto
    next
      case ne: False
      show ?thesis
      proof (cases "key < ks ! m")
        case True
        have up: "\<forall>i. m \<le> i \<and> i < n \<longrightarrow> key < ks ! i"
        proof (intro allI impI)
          fix i assume i: "m \<le> i \<and> i < n"
          show "key < ks ! i"
          proof (cases "i = m")
            case True
            then show ?thesis using \<open>key < ks ! m\<close> by simp
          next
            case False
            then have "ks ! m < ks ! i" using sorted i by simp
            then show ?thesis using \<open>key < ks ! m\<close> by simp
          qed
        qed
        have "\<exists>r. leaf_find_loop ?page key (int lo) (int m) = Some (Inr (int r)) \<and> r \<le> n
            \<and> ((r < n \<and> ks ! r = key) \<or> ((\<forall>i < r. ks ! i < key) \<and> (\<forall>i. r \<le> i \<and> i < n \<longrightarrow> key < ks ! i)))"
          using m less.prems up by (intro less.hyps) auto
        then show ?thesis using unfold ne True by simp
      next
        case False
        then have gt: "ks ! m < key" using ne by simp
        have low: "\<forall>i < Suc m. ks ! i < key"
        proof (intro allI impI)
          fix i assume i: "i < Suc m"
          show "ks ! i < key"
          proof (cases "i = m")
            case True
            then show ?thesis using gt by simp
          next
            case False
            then have "ks ! i < ks ! m" using sorted i m by simp
            then show ?thesis using gt by simp
          qed
        qed
        have "\<exists>r. leaf_find_loop ?page key (int (Suc m)) (int hi) = Some (Inr (int r)) \<and> r \<le> n
            \<and> ((r < n \<and> ks ! r = key) \<or> ((\<forall>i < r. ks ! i < key) \<and> (\<forall>i. r \<le> i \<and> i < n \<longrightarrow> key < ks ! i)))"
          using m less.prems low by (intro less.hyps) auto
        then show ?thesis using unfold ne False by (simp add: add.commute)
      qed
    qed
  qed
qed

subsection \<open>Finding and inserting in a leaf\<close>

lemma table_get_page_eval:
  "pages t n = Some page \<Longrightarrow> n \<le> 400 \<Longrightarrow> table_get_page t n = Inr t"
  by (rule table_get_page_cached)

lemma leaf_node_find_correct:
  fixes cells :: "(int \<times> bytes) list"
  defines "ks \<equiv> cell_keys cells"
  assumes page: "pages t pg = Some (leaf_page ty rt par num lnk cells tail)" "pg \<le> 400"
    and wf: "wf_cells cells" and n: "num mod 4294967296 = int n" "n \<le> length cells"
    and sorted: "\<forall>i j. i < j \<and> j < n \<longrightarrow> ks ! i < ks ! j"
  shows "\<exists>r. leaf_node_find t pg key = Inr (\<lparr>cursor_page_num = pg, cursor_cell_num = int r, end_of_table = False\<rparr>, t)
            \<and> r \<le> n
            \<and> ((r < n \<and> ks ! r = key) \<or> ((\<forall>i < r. ks ! i < key) \<and> (\<forall>i. r \<le> i \<and> i < n \<longrightarrow> key < ks ! i)))"
proof -
  have "\<exists>r. leaf_find_loop (leaf_page ty rt par num lnk cells tail) key (int 0) (int n) = Some (Inr (int r))
            \<and> r \<le> n
            \<and> ((r < n \<and> cell_keys cells ! r = key) \<or> ((\<forall>i < r. cell_keys cells ! i < key) \<and> (\<forall>i. r \<le> i \<and> i < n \<longrightarrow> key < cell_keys cells ! i)))"
    using sorted unfolding ks_def by (intro leaf_find_loop_correct [OF wf n(2)]) auto
  then obtain r where r: "leaf_find_loop (leaf_page ty rt par num lnk cells tail) key 0 (int n) = Some (Inr (int r))"
      "r \<le> n" "(r < n \<and> ks ! r = key) \<or> ((\<forall>i < r. ks ! i < key) \<and> (\<forall>i. r \<le> i \<and> i < n \<longrightarrow> key < ks ! i))"
    unfolding ks_def by auto
  have "leaf_node_find t pg key = Inr (\<lparr>cursor_page_num = pg, cursor_cell_num = int r, end_of_table = False\<rparr>, t)"
    using page n(1) r(1)
    by (simp add: leaf_node_find_def table_get_page_cached node_at_def leaf_page_hdr)
  with r show ?thesis by blast
qed

lemma leaf_node_insert_append:
  assumes page: "pages t pg = Some (leaf_page ty rt par num lnk cells tail)" "pg \<le> 400"
    and wf: "wf_cells cells" and n: "num mod 4294967296 = int n" "n < 13" "n < length cells"
    and row: "0 \<le> key" "key < 4294967296" "0 \<le> row_id r" "row_id r < 4294967296"
      "encode_ascii (username r) = Inr ub" "encode_ascii (email r) = Inr eb"
  shows "leaf_node_insert d t \<lparr>cursor_page_num = pg, cursor_cell_num = int n, end_of_table = e\<rparr> key r
         = Inr (t\<lparr>pages := (pages t)(pg \<mapsto>
             leaf_page ty rt par (int n + 1) lnk (cells[n := (key, row_bytes (row_id r) ub eb)]) tail)\<rparr>)"
proof -
  have wf': "wf_cells (cells[n := (key, snd (cells ! n))])"
    using wf n(3) by (simp add: wf_cells_update wf_cells_nth)
  have ser: "serialize_row r (leaf_page ty rt par (int n + 1) lnk (cells[n := (key, snd (cells ! n))]) tail)
               (leaf_node_value_offset (int n))
             = Inr (leaf_page ty rt par (int n + 1) lnk (cells[n := (key, row_bytes (row_id r) ub eb)]) tail)"
    using leaf_page_serialize_row [OF wf', of "int n" r ub eb ty rt par "int n + 1" lnk tail] n(3) row
    by simp
  show ?thesis
    using assms
    by (simp add: leaf_node_insert_def table_get_page_cached node_at_def leaf_page_hdr layout_values
        update_node_def leaf_page_set_hdr leaf_page_set_key ser)
qed

subsection \<open>Rows in cells\<close>

lemma valid_row_encode:
  assumes "valid_row r"
  shows "encode_ascii (username r) = Inr (ascii_bytes (username r))"
    and "encode_ascii (email r) = Inr (ascii_bytes (email r))"
  using assms by (simp_all add: valid_row_def encode_ascii_def ascii_bytes_def list_all_iff)

lemma length_row_cell [simp]: "length (snd (row_cell r)) = 291"
  by (simp add: row_cell_def length_row_bytes)

lemma fst_row_cell [simp]: "fst (row_cell r) = row_id r"
  by (simp add: row_cell_def)

lemma deserialize_row_cell:
  assumes "valid_row r"
  shows "deserialize_row (snd (row_cell r)) = Inr r"
proof -
  let ?ib = "le_bytes 4 (row_id r)"
  let ?ub = "ascii_bytes (username r) @ replicate (32 - length (username r)) 0"
  let ?eb = "ascii_bytes (email r) @ replicate (255 - length (email r)) 0"
  have user: "\<forall>c \<in> set (username r). (of_char c :: int) < 128 \<and> c \<noteq> CHR 0x00" "length (username r) \<le> 32"
    and mail: "\<forall>c \<in> set (email r). (of_char c :: int) < 128 \<and> c \<noteq> CHR 0x00" "length (email r) \<le> 255"
    and id_range: "0 \<le> row_id r" "row_id r < 2 ^ 32"
    using assms by (simp_all add: valid_row_def list_all_iff)
  have len: "length ?ib = 4" "length ?ub = 32" "length ?eb = 255"
    using user(2) mail(2) by (simp_all add: ascii_bytes_def)
  have pad_u: "pad_field COLUMN_USERNAME_SIZE (ascii_bytes (username r)) = ?ub"
    using user(2) by (simp add: pad_field_def COLUMN_USERNAME_SIZE_def ascii_bytes_def)
  have pad_e: "pad_field COLUMN_EMAIL_SIZE (ascii_bytes (email r)) = ?eb"
    using mail(2) by (simp add: pad_field_def COLUMN_EMAIL_SIZE_def ascii_bytes_def)
  have dec_u: "decode_ascii ?ub = Inr (username r @ replicate (32 - length (username r)) (CHR 0x00))"
    unfolding ascii_bytes_def using user(1) by (intro decode_encode_pad) blast
  have dec_e: "decode_ascii ?eb = Inr (email r @ replicate (255 - length (email r)) (CHR 0x00))"
    unfolding ascii_bytes_def using mail(1) by (intro decode_encode_pad) blast
  have strip_u: "rstrip_nul (username r @ replicate (32 - length (username r)) (CHR 0x00)) = username r"
    using user(1) by (intro rstrip_nul_pad) blast
  have strip_e: "rstrip_nul (email r @ replicate (255 - length (email r)) (CHR 0x00)) = email r"
    using mail(1) by (intro rstrip_nul_pad) blast
  have idv: "le_int ?ib = row_id r"
    using id_range by (simp add: le_int_le_bytes)
  have "deserialize_row (?ib @ ?ub @ ?eb) = Inr r"
    unfolding deserialize_row_def unpack_row_fields [OF len]
    by (simp add: dec_u dec_e strip_u strip_e idv)
  then show ?thesis by (simp add: row_cell_def row_bytes_def pad_u pad_e)
qed

subsection \<open>Inserting into a root that is a leaf\<close>

lemma table_find_leaf_root:
  assumes "pages t 0 = Some (leaf_page ty rt par num lnk cells tail)" "ty mod 256 = 1"
  shows "table_find d t key = leaf_node_find t 0 key"
  using assms
  by (simp add: table_find_def root_page_num_def table_get_page_cached node_at_def leaf_page_hdr)

lemma execute_insert_leaf_root_append:
  fixes cells :: "(int \<times> bytes) list"
  assumes page: "pages t 0 = Some (leaf_page ty rt par num lnk cells tail)" "ty mod 256 = 1"
    and wf: "wf_cells cells" and n: "num mod 4294967296 = int n" "n < 13" "n < length cells"
    and sorted: "\<forall>i j. i < j \<and> j < n \<longrightarrow> cell_keys cells ! i < cell_keys cells ! j"
    and above: "\<forall>i < n. cell_keys cells ! i < row_id r"
    and row: "valid_row r"
  shows "execute_insert d r t
         = Inr (EXECUTE_SUCCESS, t\<lparr>pages := (pages t)(0 \<mapsto>
             leaf_page ty rt par (int n + 1) lnk (cells[n := row_cell r]) tail)\<rparr>)"
proof -
  from leaf_node_find_correct [OF page(1) _ wf n(1) _ sorted, of "row_id r"] n(3)
  obtain q where q: "leaf_node_find t 0 (row_id r)
        = Inr (\<lparr>cursor_page_num = 0, cursor_cell_num = int q, end_of_table = False\<rparr>, t)"
      "q \<le> n"
      "(q < n \<and> cell_keys cells ! q = row_id r)
        \<or> ((\<forall>i < q. cell_keys cells ! i < row_id r) \<and> (\<forall>i. q \<le> i \<and> i < n \<longrightarrow> row_id r < cell_keys cells ! i))"
    by auto
  have "q = n"
  proof (rule ccontr)
    assume "q \<noteq> n"
    then have "q < n" using q(2) by simp
    then have "cell_keys cells ! q < row_id r" using above by simp
    moreover have "cell_keys cells ! q = row_id r \<or> row_id r < cell_keys cells ! q"
      using q(3) \<open>q < n\<close> by auto
    ultimately show False by auto
  qed
  have ins: "leaf_node_insert d t \<lparr>cursor_page_num = 0, cursor_cell_num = int n, end_of_table = False\<rparr> (row_id r) r
         = Inr (t\<lparr>pages := (pages t)(0 \<mapsto>
             leaf_page ty rt par (int n + 1) lnk (cells[n := row_cell r]) tail)\<rparr>)"
    using leaf_node_insert_append [OF page(1) _ wf n, of "row_id r" r _ _ d False]
      valid_row_encode [OF row] row
    by (simp add: valid_row_def row_cell_def)
  show ?thesis
    using q(1) page n(1) ins unfolding \<open>q = n\<close>
    by (simp add: execute_insert_def Let_def table_find_leaf_root [OF page]
          table_get_page_cached node_at_def leaf_page_hdr)
qed

subsection \<open>Splitting the root leaf\<close>

lemma wf_cells_append: "wf_cells (xs @ ys) \<longleftrightarrow> wf_cells xs \<and> wf_cells ys"
  by (simp add: wf_cells_def)

lemma wf_cells_take: "wf_cells xs \<Longrightarrow> wf_cells (take n xs)"
  by (auto simp: wf_cells_def list_all_iff dest: in_set_takeD)

lemma wf_cells_drop: "wf_cells xs \<Longrightarrow> wf_cells (drop n xs)"
  by (auto simp: wf_cells_def list_all_iff dest: in_set_dropD)

lemma wf_cells_with: "wf_cells cells \<Longrightarrow> length (snd cell) = 291 \<Longrightarrow> wf_cells (cells_with cells c cell)"
  using wf_cells_take [of cells c] wf_cells_drop [of cells c]
  by (simp add: cells_with_def wf_cells_def)

lemma length_cells_with: "c \<le> length cells \<Longrightarrow> length (cells_with cells c cell) = Suc (length cells)"
  by (simp add: cells_with_def)

lemma leaf_node_split_and_insert_root:
  assumes old: "pages t 0 = Some (leaf_page ty rt par num lnk cells tail)"
      "wf_cells cells" "length cells = 13" "ty mod 256 = 1" "rt mod 256 \<noteq> 0" "num mod 4294967296 = 13"
    and new: "pages t (num_pages t) = None" "pages t (num_pages t + 1) = None"
      "0 < num_pages t" "num_pages t + 1 \<le> 400"
    and cur: "c \<le> 13"
    and row: "valid_row r"
  shows "leaf_node_split_and_insert (Suc d) t \<lparr>cursor_page_num = 0, cursor_cell_num = int c, end_of_table = e\<rparr> (row_id r) r
         = Inr (t\<lparr>pages := (pages t)
                 (0 \<mapsto> internal_page 0 1 par 1 (num_pages t)
                    ((icells_of (leaf_body (take 7 (cells_with cells c (row_cell r)) @ drop 7 cells) tail))
                       [0 := (num_pages t + 1, fst (cells_with cells c (row_cell r) ! 6) mod 4294967296)])
                    (drop 32 (leaf_body (take 7 (cells_with cells c (row_cell r)) @ drop 7 cells) tail)),
                  num_pages t + 1 \<mapsto>
                    leaf_page ty 0 0 7 (num_pages t) (take 7 (cells_with cells c (row_cell r)) @ drop 7 cells) tail,
                  num_pages t \<mapsto>
                    leaf_page 1 0 0 7 (lnk mod 4294967296)
                      (drop 7 (cells_with cells c (row_cell r)) @ drop 7 zero_cells) (replicate 247 0)),
               num_pages := num_pages t + 2\<rparr>)"
proof -
  let ?np = "num_pages t"
  let ?ins = "cells_with cells c (row_cell r)"
  let ?L = "take 7 ?ins @ drop 7 cells"
  let ?R = "drop 7 ?ins @ drop 7 zero_cells"
  let ?t1 = "t\<lparr>pages := (pages t)
                 (0 \<mapsto> leaf_page ty rt par 7 ?np ?L tail,
                  ?np \<mapsto> leaf_page 1 0 (par mod 4294967296) 7 (lnk mod 4294967296) ?R (replicate 247 0)),
               num_pages := ?np + 1\<rparr>"
  have split: "leaf_node_split_cells (Suc d) t \<lparr>cursor_page_num = 0, cursor_cell_num = int c, end_of_table = e\<rparr> (row_id r) r
        = Inr (fst (cells ! 12) mod 4294967296, ?np, ?t1)"
    using leaf_node_split_cells_pages [OF old(1,2,3,4,6) new(1), of "int c" "row_id r" r
        "ascii_bytes (username r)" "ascii_bytes (email r)" d e]
      new cur row valid_row_encode [OF row]
    by (simp add: valid_row_def cells_with_def row_cell_def)
  have wfL: "wf_cells ?L"
    using old(2) by (simp add: wf_cells_append wf_cells_take wf_cells_drop wf_cells_with)
  have lenL: "length ?L = 13"
    using old(3) cur by (simp add: length_cells_with)
  have L6: "?L ! 6 = ?ins ! 6"
    using old(3) cur by (simp add: nth_append length_cells_with)
  have root: "create_new_root (Suc d) ?t1 ?np
     = Inr (?t1\<lparr>pages := (pages ?t1)
                 (0 \<mapsto> internal_page 0 1 par 1 ?np
                    ((icells_of (leaf_body ?L tail))
                       [0 := (num_pages ?t1, fst (?L ! nat (7 mod 4294967296 - 1)) mod 4294967296)])
                    (drop 32 (leaf_body ?L tail)),
                  num_pages ?t1 \<mapsto> leaf_page ty 0 0 7 ?np ?L tail,
                  ?np \<mapsto> leaf_page 1 0 0 7 (lnk mod 4294967296) ?R (replicate 247 0)),
               num_pages := num_pages ?t1 + 1\<rparr>)"
    using new old(4) wfL lenL
    by (intro create_new_root_leaf) auto
  have "leaf_node_split_and_insert (Suc d) t \<lparr>cursor_page_num = 0, cursor_cell_num = int c, end_of_table = e\<rparr> (row_id r) r
        = create_new_root (Suc d) ?t1 ?np"
    using old(5) new by (simp add: leaf_node_split_and_insert_def split node_at_def leaf_page_hdr)
  also note root
  finally show ?thesis
    using new by (simp add: L6 fun_upd_twist)
qed

subsection \<open>Reading the rows of a leaf\<close>

lemma select_loop_end:
  "select_loop t \<lparr>cursor_page_num = pg, cursor_cell_num = c, end_of_table = True\<rparr> printed
     = Some (Inr (printed, t))"
  by (subst select_loop.simps) simp

lemma select_loop_step:
  assumes page: "pages t pg = Some (leaf_page ty rt par num lnk cells tail)" "pg \<le> 400"
    and wf: "wf_cells cells" and n: "num mod 4294967296 = int n" "n \<le> length cells"
    and row: "deserialize_row (snd (cells ! i)) = Inr r"
    and i: "i < n"
  shows "select_loop t \<lparr>cursor_page_num = pg, cursor_cell_num = int i, end_of_table = False\<rparr> printed
       = (if Suc i < n
          then select_loop t \<lparr>cursor_page_num = pg, cursor_cell_num = int (Suc i), end_of_table = False\<rparr>
                 (printed @ [r])
          else if lnk mod 4294967296 = 0 then Some (Inr (printed @ [r], t))
          else select_loop t \<lparr>cursor_page_num = lnk mod 4294967296, cursor_cell_num = 0,
                                end_of_table = False\<rparr> (printed @ [r]))"
proof -
  have sl: "py_slice (leaf_page ty rt par num lnk cells tail) (leaf_node_value_offset (int i))
           (leaf_node_value_offset (int i) + ROW_SIZE) = snd (cells ! i)"
    using leaf_page_value_slice [OF wf, of "int i"] i n(2) by simp
  have adv: "cursor_advance t \<lparr>cursor_page_num = pg, cursor_cell_num = int i, end_of_table = False\<rparr>
     = (if Suc i < n
        then Inr (\<lparr>cursor_page_num = pg, cursor_cell_num = int (Suc i), end_of_table = False\<rparr>, t)
        else if lnk mod 4294967296 = 0
        then Inr (\<lparr>cursor_page_num = pg, cursor_cell_num = int (Suc i), end_of_table = True\<rparr>, t)
        else Inr (\<lparr>cursor_page_num = lnk mod 4294967296, cursor_cell_num = 0, end_of_table = False\<rparr>, t))"
    using page n(1) i
    by (auto simp: cursor_advance_def Let_def table_get_page_cached node_at_def leaf_page_hdr)
  show ?thesis
    apply (subst select_loop.simps)
    using page
    apply (simp add: table_get_page_cached node_at_def sl row adv select_loop_end)
    done
qed

lemma select_loop_leaf:
  assumes page: "pages t pg = Some (leaf_page ty rt par num lnk cells tail)" "pg \<le> 400"
    and wf: "wf_cells cells" and n: "num mod 4294967296 = int n" "n \<le> length cells"
  shows "i < n \<Longrightarrow> \<forall>j. i \<le> j \<and> j < n \<longrightarrow> deserialize_row (snd (cells ! j)) = Inr (rs j) \<Longrightarrow>
       select_loop t \<lparr>cursor_page_num = pg, cursor_cell_num = int i, end_of_table = False\<rparr> printed
       = (if lnk mod 4294967296 = 0 then Some (Inr (printed @ map rs [i..<n], t))
          else select_loop t \<lparr>cursor_page_num = lnk mod 4294967296, cursor_cell_num = 0,
                                end_of_table = False\<rparr> (printed @ map rs [i..<n]))"
proof (induction "n - i" arbitrary: i printed)
  case 0
  then show ?case by simp
next
  case (Suc k)
  have row: "deserialize_row (snd (cells ! i)) = Inr (rs i)"
    using Suc.prems by simp
  note step = select_loop_step [OF page wf n row Suc.prems(1), of printed]
  show ?case
  proof (cases "Suc i < n")
    case True
    have k: "k = n - Suc i" using Suc.hyps(2) by simp
    have rest: "\<forall>j. Suc i \<le> j \<and> j < n \<longrightarrow> deserialize_row (snd (cells ! j)) = Inr (rs j)"
      using Suc.prems(2) by simp
    have upt: "[i..<n] = i # [Suc i..<n]"
      using Suc.prems(1) by (simp add: upt_conv_Cons)
    show ?thesis
      unfolding step using True Suc.hyps(1) [OF k True rest, of "printed @ [rs i]"]
      by (simp add: upt)
  next
    case False
    then have "n = Suc i" using Suc.prems(1) by simp
    then have upt: "[i..<n] = [i]" by simp
    show ?thesis
      unfolding step using False by (simp add: upt)
  qed
qed

subsection \<open>Finding the leaf under a root with one key\<close>

lemma find_child_loop_one_key:
  assumes "internal_node_key node 0 = Inr k"
  shows "find_child_loop node key 0 1 = Some (Inr (if k \<ge> key then 0 else 1))"
  using assms
  by (simp add: find_child_loop.simps [of node key 0 1] find_child_loop.simps [of node key 0 0]
        find_child_loop.simps [of node key 1 1])

lemma table_find_root_one_key:
  assumes root: "pages t 0 = Some (internal_page ty rt par num rc ic rest)" "ty mod 256 = 0"
      "num mod 4294967296 = 1" "ic \<noteq> []"
    and child: "pages t (if snd (ic ! 0) mod 4294967296 \<ge> key then fst (ic ! 0) mod 4294967296
                         else rc mod 4294967296)
                  = Some (leaf_page ty2 rt2 par2 num2 lnk2 cells2 tail2)" "ty2 mod 256 = 1"
      "(if snd (ic ! 0) mod 4294967296 \<ge> key then fst (ic ! 0) mod 4294967296 else rc mod 4294967296) \<le> 400"
  shows "table_find (Suc d) t key
         = leaf_node_find t (if snd (ic ! 0) mod 4294967296 \<ge> key then fst (ic ! 0) mod 4294967296
                             else rc mod 4294967296) key"
proof -
  have key0: "internal_node_key (internal_page ty rt par num rc ic rest) 0 = Inr (snd (ic ! 0) mod 4294967296)"
    using internal_page_key [of 0 ic] root(4) by simp
  have fc: "internal_node_find_child (internal_page ty rt par num rc ic rest) key
      = Inr (if snd (ic ! 0) mod 4294967296 \<ge> key then 0 else 1)"
    using root(3) by (simp add: internal_node_find_child_def internal_page_hdr find_child_loop_one_key [OF key0])
  have ch: "internal_node_child (internal_page ty rt par num rc ic rest)
               (if snd (ic ! 0) mod 4294967296 \<ge> key then 0 else 1)
      = Inr (if snd (ic ! 0) mod 4294967296 \<ge> key then fst (ic ! 0) mod 4294967296 else rc mod 4294967296)"
    using internal_page_child [of 0 ic ty rt par num rc rest]
      internal_page_right_child_as_child [of 1 num ty rt par rc ic rest] root(3,4)
    by simp
  show ?thesis
    using root(1,2) child
    by (simp add: table_find_def root_page_num_def table_get_page_cached node_at_def internal_page_hdr
          fc ch leaf_page_hdr)
qed

lemma leaf_node_find_zero:
  fixes cells :: "(int \<times> bytes) list"
  assumes page: "pages t pg = Some (leaf_page ty rt par num lnk cells tail)" "pg \<le> 400"
    and wf: "wf_cells cells" and n: "num mod 4294967296 = int n" "n \<le> length cells"
    and sorted: "\<forall>i j. i < j \<and> j < n \<longrightarrow> cell_keys cells ! i < cell_keys cells ! j"
  shows "leaf_node_find t pg 0 = Inr (\<lparr>cursor_page_num = pg, cursor_cell_num = 0, end_of_table = False\<rparr>, t)"
proof -
  from leaf_node_find_correct [OF page wf n sorted, of 0]
  obtain q where q: "leaf_node_find t pg 0
        = Inr (\<lparr>cursor_page_num = pg, cursor_cell_num = int q, end_of_table = False\<rparr>, t)"
      "q \<le> n"
      "(q < n \<and> cell_keys cells ! q = 0)
        \<or> ((\<forall>i < q. cell_keys cells ! i < 0) \<and> (\<forall>i. q \<le> i \<and> i < n \<longrightarrow> 0 < cell_keys cells ! i))"
    by auto
  have nonneg: "0 \<le> cell_keys cells ! i" if "i < n" for i
    using that n(2) by (simp add: cell_keys_def)
  have "q = 0"
  proof (rule ccontr)
    assume "q \<noteq> 0"
    then have pos: "0 < q" by simp
    from q(3) show False
    proof
      assume a: "q < n \<and> cell_keys cells ! q = 0"
      then have "cell_keys cells ! 0 < cell_keys cells ! q" using sorted pos by blast
      then show False using a nonneg [of 0] pos by simp
    next
      assume "(\<forall>i < q. cell_keys cells ! i < 0) \<and> (\<forall>i. q \<le> i \<and> i < n \<longrightarrow> 0 < cell_keys cells ! i)"
      then have "cell_keys cells ! 0 < 0" using pos by blast
      then show False using nonneg [of 0] pos q(2) by simp
    qed
  qed
  then show ?thesis using q(1) by simp
qed

subsection \<open>Inserting the ids 1 to 14 into a new table\<close>

lemma rows_from_nth:
  "rows_from k rs \<Longrightarrow> i < length rs \<Longrightarrow> valid_row (rs ! i) \<and> row_id (rs ! i) = k + int i"
proof (induction rs arbitrary: k i)
  case Nil
  then show ?case by simp
next
  case (Cons r rs)
  then show ?case by (cases i) auto
qed

lemma rows_from_append:
  "rows_from k (xs @ ys) \<longleftrightarrow> rows_from k xs \<and> rows_from (k + int (length xs)) ys"
  by (induction xs arbitrary: k) (auto simp: algebra_simps)

lemma rows_from_ids: "rows_from k rs \<Longrightarrow> map row_id rs = map (\<lambda>i. k + int i) [0..<length rs]"
  by (rule nth_equalityI) (simp_all add: rows_from_nth)

lemma wf_cells_rows: "wf_cells (map row_cell rs)"
  by (simp add: wf_cells_def list_all_iff)

lemma wf_cells_rows_zero: "wf_cells (map row_cell rs @ drop n zero_cells)"
  by (simp add: wf_cells_append wf_cells_rows wf_cells_drop)

lemma cell_keys_rows:
  assumes "rows_from 1 pre" "length pre \<le> 14" "i < length pre"
  shows "cell_keys (map row_cell pre @ z) ! i = int i + 1"
  using assms rows_from_nth [OF assms(1,3)]
  by (simp add: cell_keys_def nth_append)

lemma leaf_root_table_fresh: "leaf_root_table [] = fresh_table"
  by (simp add: leaf_root_table_def fresh_table_def)

lemma execute_insert_leaf_root_table:
  assumes rows: "rows_from 1 (pre @ [r])" and len: "length pre < 13"
  shows "execute_insert d r (leaf_root_table pre) = Inr (EXECUTE_SUCCESS, leaf_root_table (pre @ [r]))"
proof -
  let ?n = "length pre"
  let ?cells = "map row_cell pre @ drop ?n zero_cells"
  have pre: "rows_from 1 pre" and r: "valid_row r" "row_id r = 1 + int ?n"
    using rows by (simp_all add: rows_from_append)
  have page: "pages (leaf_root_table pre) 0 = Some (leaf_page 1 1 0 (int ?n) 0 ?cells (replicate 247 0))"
    by (simp add: leaf_root_table_def)
  have lenz: "length zero_cells = 13" by (simp add: zero_cells_def)
  have keys: "cell_keys ?cells ! i = int i + 1" if "i < ?n" for i
    using cell_keys_rows [OF pre _ that] len by simp
  have sorted: "\<forall>i j. i < j \<and> j < ?n \<longrightarrow> cell_keys ?cells ! i < cell_keys ?cells ! j"
    using keys by auto
  have above: "\<forall>i < ?n. cell_keys ?cells ! i < row_id r"
    using keys r(2) by auto
  have upd: "?cells[?n := row_cell r] = map row_cell (pre @ [r]) @ drop (Suc ?n) zero_cells"
    using len lenz by (simp add: list_update_append Cons_nth_drop_Suc [symmetric, of ?n zero_cells])
  have "execute_insert d r (leaf_root_table pre)
         = Inr (EXECUTE_SUCCESS, (leaf_root_table pre)\<lparr>pages := (pages (leaf_root_table pre))(0 \<mapsto>
             leaf_page 1 1 0 (int ?n + 1) 0 (?cells[?n := row_cell r]) (replicate 247 0))\<rparr>)"
    using len lenz
    by (intro execute_insert_leaf_root_append [OF page _ wf_cells_rows_zero _ _ _ sorted above r(1)]) simp_all
  then show ?thesis
    unfolding upd by (simp add: leaf_root_table_def add.commute)
qed

lemma execute_inserts_leaf_root:
  "rows_from 1 (pre @ rs) \<Longrightarrow> length pre + length rs \<le> 13 \<Longrightarrow>
   execute_inserts d rs (leaf_root_table pre)
     = Inr (replicate (length rs) EXECUTE_SUCCESS, leaf_root_table (pre @ rs))"
proof (induction rs arbitrary: pre)
  case Nil
  then show ?case by simp
next
  case (Cons r rs)
  have 1: "rows_from 1 (pre @ [r])"
    using Cons.prems(1) by (simp add: rows_from_append)
  have 2: "rows_from 1 ((pre @ [r]) @ rs)"
    using Cons.prems(1) by simp
  have 3: "length pre < 13" "length (pre @ [r]) + length rs \<le> 13"
    using Cons.prems(2) by simp_all
  show ?case
    using execute_insert_leaf_root_table [OF 1 3(1), of d] Cons.IH [OF 2 3(2)]
    by simp
qed

lemma execute_insert_root_full:
  fixes cells :: "(int \<times> bytes) list"
  assumes old: "pages t 0 = Some (leaf_page ty rt par num lnk cells tail)"
      "wf_cells cells" "length cells = 13" "ty mod 256 = 1" "rt mod 256 \<noteq> 0" "num mod 4294967296 = 13"
    and new: "pages t (num_pages t) = None" "pages t (num_pages t + 1) = None"
      "0 < num_pages t" "num_pages t + 1 \<le> 400"
    and sorted: "\<forall>i j. i < j \<and> j < 13 \<longrightarrow> cell_keys cells ! i < cell_keys cells ! j"
    and absent: "\<forall>i < 13. cell_keys cells ! i \<noteq> row_id r"
    and row: "valid_row r"
  shows "\<exists>c \<le> 13. (\<forall>i < c. cell_keys cells ! i < row_id r)
          \<and> (\<forall>i. c \<le> i \<and> i < 13 \<longrightarrow> row_id r < cell_keys cells ! i)
          \<and> execute_insert (Suc d) r t
         = Inr (EXECUTE_SUCCESS, t\<lparr>pages := (pages t)
                 (0 \<mapsto> internal_page 0 1 par 1 (num_pages t)
                    ((icells_of (leaf_body (take 7 (cells_with cells c (row_cell r)) @ drop 7 cells) tail))
                       [0 := (num_pages t + 1, fst (cells_with cells c (row_cell r) ! 6) mod 4294967296)])
                    (drop 32 (leaf_body (take 7 (cells_with cells c (row_cell r)) @ drop 7 cells) tail)),
                  num_pages t + 1 \<mapsto>
                    leaf_page ty 0 0 7 (num_pages t) (take 7 (cells_with cells c (row_cell r)) @ drop 7 cells) tail,
                  num_pages t \<mapsto>
                    leaf_page 1 0 0 7 (lnk mod 4294967296)
                      (drop 7 (cells_with cells c (row_cell r)) @ drop 7 zero_cells) (replicate 247 0)),
               num_pages := num_pages t + 2\<rparr>)"
proof -
  have n: "num mod 4294967296 = int 13" "13 \<le> length cells"
    using old by simp_all
  have sorted': "\<forall>i j. i < j \<and> j < 13 \<longrightarrow> cell_keys cells ! i < cell_keys cells ! j"
    using sorted .
  from leaf_node_find_correct [OF old(1) _ old(2) n sorted', of "row_id r"]
  obtain q where q: "leaf_node_find t 0 (row_id r)
        = Inr (\<lparr>cursor_page_num = 0, cursor_cell_num = int q, end_of_table = False\<rparr>, t)"
      "q \<le> 13"
      "(q < 13 \<and> cell_keys cells ! q = row_id r)
        \<or> ((\<forall>i < q. cell_keys cells ! i < row_id r) \<and> (\<forall>i. q \<le> i \<and> i < 13 \<longrightarrow> row_id r < cell_keys cells ! i))"
    by auto
  have pos: "(\<forall>i < q. cell_keys cells ! i < row_id r) \<and> (\<forall>i. q \<le> i \<and> i < 13 \<longrightarrow> row_id r < cell_keys cells ! i)"
    using q(3) absent by blast
  have key_q: "leaf_node_key (leaf_page ty rt par num lnk cells tail) (int q) = Inr (cell_keys cells ! q)"
    if "q < 13"
    using leaf_page_key [OF old(2), of "int q"] that old(3) by (simp add: cell_keys_def)
  have ins: "leaf_node_insert (Suc d) t \<lparr>cursor_page_num = 0, cursor_cell_num = int q, end_of_table = False\<rparr> (row_id r) r
      = leaf_node_split_and_insert (Suc d) t \<lparr>cursor_page_num = 0, cursor_cell_num = int q, end_of_table = False\<rparr> (row_id r) r"
    using old(1,6)
    by (simp add: leaf_node_insert_def table_get_page_cached node_at_def leaf_page_hdr layout_values)
  have "execute_insert (Suc d) r t
      = ebind (leaf_node_split_and_insert (Suc d) t \<lparr>cursor_page_num = 0, cursor_cell_num = int q, end_of_table = False\<rparr> (row_id r) r)
          (\<lambda>t. Inr (EXECUTE_SUCCESS, t))"
  proof (cases "q < 13")
    case True
    then have "cell_keys cells ! q \<noteq> row_id r" using absent by simp
    then show ?thesis
      using old(1,6) q(1) key_q [OF True] True
      by (simp add: execute_insert_def Let_def table_find_leaf_root [OF old(1,4)]
            table_get_page_cached node_at_def leaf_page_hdr ins)
  next
    case False
    then show ?thesis
      using old(1,6) q(1)
      by (simp add: execute_insert_def Let_def table_find_leaf_root [OF old(1,4)]
            table_get_page_cached node_at_def leaf_page_hdr ins)
  qed
  then show ?thesis
    using pos q(2) leaf_node_split_and_insert_root [OF old new q(2) row, of d False]
    by (intro exI [of _ q]) simp
qed

lemma execute_inserts_append:
  "execute_inserts d (xs @ ys) t =
     ebind (execute_inserts d xs t) (\<lambda>(a, t).
     ebind (execute_inserts d ys t) (\<lambda>(b, t). Inr (a @ b, t)))"
proof (induction xs arbitrary: t)
  case Nil
  show ?case by (cases "execute_inserts d ys t") auto
next
  case (Cons x xs)
  show ?case
  proof (cases "execute_insert d x t")
    case (Inl e)
    then show ?thesis by simp
  next
    case (Inr p)
    obtain res t1 where p: "p = (res, t1)" by (cases p)
    show ?thesis
    proof (cases "execute_inserts d xs t1")
      case (Inl e)
      then show ?thesis using Inr p Cons.IH [of t1] by simp
    next
      case xs: (Inr p2)
      obtain a t2 where p2: "p2 = (a, t2)" by (cases p2)
      show ?thesis
        using Inr p xs p2 Cons.IH [of t1]
        by (cases "execute_inserts d ys t2") auto
    qed
  qed
qed

lemma take_13_of_14:
  assumes "length (rows :: 'a list) = 14"
  shows "rows = take 13 rows @ [rows ! 13]"
  using assms by (simp add: take_Suc_conv_app_nth [symmetric])

lemma execute_insert_14th:
  assumes rows: "rows_from 1 rows" "length rows = 14"
  shows "execute_insert (Suc d) (rows ! 13) (leaf_root_table (take 13 rows))
           = Inr (EXECUTE_SUCCESS, two_leaf_table rows)"
proof -
  let ?pre = "take 13 rows"
  let ?r = "rows ! 13"
  let ?cells = "map row_cell ?pre"
  let ?t = "leaf_root_table ?pre"
  have split: "rows = ?pre @ [?r]" using rows(2) by (rule take_13_of_14)
  have pre: "rows_from 1 ?pre" "length ?pre = 13"
    using rows rows_from_append [of 1 ?pre "[?r]"] split by simp_all
  have r: "valid_row ?r" "row_id ?r = 14"
    using rows_from_nth [OF rows(1), of 13] rows(2) by simp_all
  have lenz: "length zero_cells = 13" by (simp add: zero_cells_def)
  have page: "pages ?t 0 = Some (leaf_page 1 1 0 13 0 ?cells (replicate 247 0))"
    using pre(2) lenz by (simp add: leaf_root_table_def)
  have keys: "cell_keys ?cells ! i = int i + 1" if "i < 13" for i
    using cell_keys_rows [OF pre(1), of i "[]"] that pre(2) by simp
  have sorted: "\<forall>i j. i < j \<and> j < 13 \<longrightarrow> cell_keys ?cells ! i < cell_keys ?cells ! j"
    using keys by auto
  have absent: "\<forall>i < 13. cell_keys ?cells ! i \<noteq> row_id ?r"
    using keys r(2) by auto
  have np: "num_pages ?t = 1" "pages ?t 1 = None" "pages ?t 2 = None"
    by (simp_all add: leaf_root_table_def)
  from execute_insert_root_full [OF page wf_cells_rows _ _ _ _ _ _ _ _ sorted absent r(1), of d]
  obtain c where c: "c \<le> 13" "\<forall>i. c \<le> i \<and> i < 13 \<longrightarrow> row_id ?r < cell_keys ?cells ! i"
    and res: "execute_insert (Suc d) ?r ?t
         = Inr (EXECUTE_SUCCESS, ?t\<lparr>pages := (pages ?t)
                 (0 \<mapsto> internal_page 0 1 0 1 (num_pages ?t)
                    ((icells_of (leaf_body (take 7 (cells_with ?cells c (row_cell ?r)) @ drop 7 ?cells) (replicate 247 0)))
                       [0 := (num_pages ?t + 1, fst (cells_with ?cells c (row_cell ?r) ! 6) mod 4294967296)])
                    (drop 32 (leaf_body (take 7 (cells_with ?cells c (row_cell ?r)) @ drop 7 ?cells) (replicate 247 0))),
                  num_pages ?t + 1 \<mapsto>
                    leaf_page 1 0 0 7 (num_pages ?t) (take 7 (cells_with ?cells c (row_cell ?r)) @ drop 7 ?cells) (replicate 247 0),
                  num_pages ?t \<mapsto>
                    leaf_page 1 0 0 7 (0 mod 4294967296)
                      (drop 7 (cells_with ?cells c (row_cell ?r)) @ drop 7 zero_cells) (replicate 247 0)),
               num_pages := num_pages ?t + 2\<rparr>)"
    using pre(2) np by auto
  have "c = 13"
  proof (rule ccontr)
    assume "c \<noteq> 13"
    then have "c < 13" using c(1) by simp
    then have "row_id ?r < cell_keys ?cells ! c" using c(2) by simp
    then show False using keys [OF \<open>c < 13\<close>] r(2) \<open>c < 13\<close> by simp
  qed
  have cw: "cells_with ?cells 13 (row_cell ?r) = ?cells @ [row_cell ?r]"
    using pre(2) by (simp add: cells_with_def)
  have left: "take 7 (?cells @ [row_cell ?r]) @ drop 7 ?cells = ?cells"
    using pre(2) by simp
  have right: "drop 7 (?cells @ [row_cell ?r]) = map row_cell (drop 7 rows)"
  proof -
    have "drop 7 rows = drop 7 ?pre @ [?r]"
      using pre(2) by (subst split) simp
    then show ?thesis using pre(2) by (simp add: drop_map)
  qed
  have six: "fst ((?cells @ [row_cell ?r]) ! 6) mod 4294967296 = 7"
    using keys [of 6] pre(2) by (simp add: cell_keys_def nth_append)
  show ?thesis
    unfolding res \<open>c = 13\<close> cw left right six
    by (simp add: np two_leaf_table_def leaf_root_table_def)
qed

lemma execute_inserts_14:
  assumes rows: "rows_from 1 rows" "length rows = 14"
  shows "execute_inserts (Suc d) rows fresh_table
           = Inr (replicate 14 EXECUTE_SUCCESS, two_leaf_table rows)"
proof -
  have split: "rows = take 13 rows @ [rows ! 13]" using rows(2) by (rule take_13_of_14)
  have pre: "rows_from 1 (take 13 rows)" "length (take 13 rows) = 13"
    using rows rows_from_append [of 1 "take 13 rows" "[rows ! 13]"] split by simp_all
  have first: "execute_inserts (Suc d) (take 13 rows) fresh_table
      = Inr (replicate 13 EXECUTE_SUCCESS, leaf_root_table (take 13 rows))"
    using execute_inserts_leaf_root [of "[]" "take 13 rows" "Suc d"] pre
    by (simp add: leaf_root_table_fresh)
  have "execute_inserts (Suc d) (take 13 rows @ [rows ! 13]) fresh_table
      = Inr (replicate 13 EXECUTE_SUCCESS @ [EXECUTE_SUCCESS], two_leaf_table rows)"
    unfolding execute_inserts_append first
    by (simp add: execute_insert_14th [OF rows])
  moreover have "replicate 13 EXECUTE_SUCCESS @ [EXECUTE_SUCCESS] = replicate 14 EXECUTE_SUCCESS"
    by code_simp
  ultimately show ?thesis using split by simp
qed

lemma two_leaf_table_pages:
  "pages (two_leaf_table rs) 0 = Some (internal_page 0 1 0 1 1
      ((icells_of (leaf_body (map row_cell (take 13 rs)) (replicate 247 0)))[0 := (2, 7)])
      (drop 32 (leaf_body (map row_cell (take 13 rs)) (replicate 247 0))))"
  "pages (two_leaf_table rs) 2 = Some (leaf_page 1 0 0 7 1 (map row_cell (take 13 rs)) (replicate 247 0))"
  "pages (two_leaf_table rs) 1 = Some (leaf_page 1 0 0 7 0 (map row_cell (drop 7 rs) @ drop 7 zero_cells)
      (replicate 247 0))"
  by (simp_all add: two_leaf_table_def)

lemma two_leaf_table_root:
  "get_node_type (node_at (two_leaf_table rs) 0) = Inr INTERNAL"
  "is_node_root (node_at (two_leaf_table rs) 0) = Inr True"
  "internal_node_num_keys (node_at (two_leaf_table rs) 0) = Inr 1"
  "internal_node_key (node_at (two_leaf_table rs) 0) 0 = Inr 7"
  "internal_node_child (node_at (two_leaf_table rs) 0) 0 = Inr 2"
  "internal_node_child (node_at (two_leaf_table rs) 0) 1 = Inr 1"
  "internal_node_right_child (node_at (two_leaf_table rs) 0) = Inr 1"
  using internal_page_child [of 0 "(icells_of (leaf_body (map row_cell (take 13 rs)) (replicate 247 0)))[0 := (2, 7)]"
        0 1 0 1 1 "drop 32 (leaf_body (map row_cell (take 13 rs)) (replicate 247 0))"]
  by (simp_all add: node_at_def two_leaf_table_pages internal_page_hdr internal_page_key
        internal_page_right_child_as_child)

lemma two_leaf_table_leaves:
  "get_node_type (node_at (two_leaf_table rs) 2) = Inr LEAF"
  "get_node_type (node_at (two_leaf_table rs) 1) = Inr LEAF"
  "is_node_root (node_at (two_leaf_table rs) 2) = Inr False"
  "is_node_root (node_at (two_leaf_table rs) 1) = Inr False"
  "node_parent (node_at (two_leaf_table rs) 2) = Inr 0"
  "node_parent (node_at (two_leaf_table rs) 1) = Inr 0"
  "leaf_node_num_cells (node_at (two_leaf_table rs) 2) = Inr 7"
  "leaf_node_num_cells (node_at (two_leaf_table rs) 1) = Inr 7"
  "leaf_node_next_leaf (node_at (two_leaf_table rs) 2) = Inr 1"
  "leaf_node_next_leaf (node_at (two_leaf_table rs) 1) = Inr 0"
  by (simp_all add: node_at_def two_leaf_table_pages leaf_page_hdr)

lemma execute_select_two_leaves:
  assumes rows: "rows_from 1 rows" "length rows = 14"
  shows "execute_select (Suc d) (two_leaf_table rows) = Inr (rows, two_leaf_table rows)"
proof -
  let ?T = "two_leaf_table rows"
  let ?L = "map row_cell (take 13 rows)"
  let ?R = "map row_cell (drop 7 rows) @ drop 7 zero_cells"
  let ?ic = "(icells_of (leaf_body ?L (replicate 247 0)))[0 := (2, 7)]"
  have pre: "rows_from 1 (take 13 rows)"
    using rows rows_from_append [of 1 "take 13 rows" "drop 13 rows"] by simp
  have keys: "cell_keys ?L ! i = int i + 1" if "i < 13" for i
    using cell_keys_rows [OF pre, of i "[]"] that rows(2) by simp
  have sortedL: "\<forall>i j. i < j \<and> j < 7 \<longrightarrow> cell_keys ?L ! i < cell_keys ?L ! j"
    using keys by auto
  have lenL: "7 \<le> length ?L" using rows(2) by simp
  have lenR: "7 \<le> length ?R" using rows(2) by simp
  have wfR: "wf_cells ?R" by (rule wf_cells_rows_zero)
  have find: "table_find (Suc d) ?T 0 = leaf_node_find ?T 2 0"
  proof -
    have "icells_of (leaf_body ?L (replicate 247 0)) \<noteq> []"
      using length_icells_of [of "leaf_body ?L (replicate 247 0)"] by (metis length_0_conv zero_neq_numeral)
    then show ?thesis
      using table_find_root_one_key [OF two_leaf_table_pages(1), of rows 0 1 0 0 7 1 ?L "replicate 247 0" d]
      by (simp add: two_leaf_table_pages)
  qed
  have "leaf_node_find ?T 2 0 = Inr (\<lparr>cursor_page_num = 2, cursor_cell_num = 0, end_of_table = False\<rparr>, ?T)"
    using lenL by (intro leaf_node_find_zero [OF two_leaf_table_pages(2) _ wf_cells_rows _ _ sortedL]) simp_all
  then have start: "table_start (Suc d) ?T
      = Inr (\<lparr>cursor_page_num = 2, cursor_cell_num = 0, end_of_table = False\<rparr>, ?T)"
    by (simp add: table_start_def find table_get_page_cached [OF two_leaf_table_pages(2)]
          two_leaf_table_leaves)
  have rowsL: "\<forall>j. 0 \<le> j \<and> j < 7 \<longrightarrow> deserialize_row (snd (?L ! j)) = Inr (rows ! j)"
    using rows(2) rows_from_nth [OF rows(1)] by (simp add: deserialize_row_cell)
  have rowsR: "\<forall>j. 0 \<le> j \<and> j < 7 \<longrightarrow> deserialize_row (snd (?R ! j)) = Inr (rows ! (7 + j))"
    using rows(2) rows_from_nth [OF rows(1)] by (simp add: deserialize_row_cell nth_append)
  have left: "select_loop ?T \<lparr>cursor_page_num = 2, cursor_cell_num = int 0, end_of_table = False\<rparr> []
      = select_loop ?T \<lparr>cursor_page_num = 1, cursor_cell_num = 0, end_of_table = False\<rparr>
          ([] @ map (\<lambda>j. rows ! j) [0..<7])"
    using select_loop_leaf [where i = 0 and rs = "\<lambda>j. rows ! j" and printed = "[]" and n = 7,
        OF two_leaf_table_pages(2) _ wf_cells_rows _ lenL] rowsL
    by simp
  have right: "select_loop ?T \<lparr>cursor_page_num = 1, cursor_cell_num = int 0, end_of_table = False\<rparr>
          (map (\<lambda>j. rows ! j) [0..<7])
      = Some (Inr (map (\<lambda>j. rows ! j) [0..<7] @ map (\<lambda>j. rows ! (7 + j)) [0..<7], ?T))"
    using select_loop_leaf [where i = 0 and rs = "\<lambda>j. rows ! (7 + j)"
        and printed = "map (\<lambda>j. rows ! j) [0..<7]" and n = 7,
        OF two_leaf_table_pages(3) _ wfR _ lenR] rowsR
    by simp
  have all: "map (\<lambda>j. rows ! j) [0..<7] @ map (\<lambda>j. rows ! (7 + j)) [0..<7] = rows"
    using rows(2) by (intro nth_equalityI) (auto simp: nth_append)
  show ?thesis
    using left right by (simp add: execute_select_def start all)
qed

lemma first_rows_ok: "rows_from 1 first_rows \<and> length first_rows = 14"
  by (simp add: first_rows_def valid_row_def upt_rec numeral_eq_Suc)

lemma ids_1_to_14:
  assumes "rows_from 1 rows" "length rows = 14"
  shows "map row_id rows = [1, 2, 3, 4, 5, 6, 7, 8, 9, 10, 11, 12, 13, 14]"
proof -
  have "map (\<lambda>i. 1 + int i) [0..<14] = [1, 2, 3, 4, 5, 6, 7, 8, 9, 10, 11, 12, 13, 14]"
    by code_simp
  then show ?thesis using rows_from_ids [OF assms(1)] assms(2) by simp
qed

text \<open>C5. Inserting rows with the ids 1 to 14 (that is \<open>LEAF_NODE_MAX_CELLS + 1\<close>) in
  ascending order into the table of a new database succeeds each time, and the table
  then has three pages: page 0, the root, is an internal node with one key, which is
  \<open>LEAF_NODE_LEFT_SPLIT_COUNT = 7\<close>; its two children, pages 2 and 1, are leaves with
  seven cells each; and \<open>execute_select\<close> prints the fourteen rows in the order of their
  ids, 1 to 14.\<close>

theorem insert_fourteen_rows:
  assumes "rows_from 1 rows" "int (length rows) = LEAF_NODE_MAX_CELLS + 1"
  shows "\<exists>t0 t. table_init [] = Inr t0
       \<and> execute_inserts (Suc d) rows t0 = Inr (replicate 14 EXECUTE_SUCCESS, t)
       \<and> num_pages t = 3
       \<and> get_node_type (node_at t 0) = Inr INTERNAL
       \<and> is_node_root (node_at t 0) = Inr True
       \<and> internal_node_num_keys (node_at t 0) = Inr 1
       \<and> internal_node_key (node_at t 0) 0 = Inr LEAF_NODE_LEFT_SPLIT_COUNT
       \<and> LEAF_NODE_LEFT_SPLIT_COUNT = 7
       \<and> internal_node_child (node_at t 0) 0 = Inr 2
       \<and> internal_node_right_child (node_at t 0) = Inr 1
       \<and> get_node_type (node_at t 2) = Inr LEAF
       \<and> get_node_type (node_at t 1) = Inr LEAF
       \<and> leaf_node_num_cells (node_at t 2) = Inr 7
       \<and> leaf_node_num_cells (node_at t 1) = Inr 7
       \<and> execute_select (Suc d) t = Inr (rows, t)
       \<and> map row_id rows = [1, 2, 3, 4, 5, 6, 7, 8, 9, 10, 11, 12, 13, 14]"
proof -
  have len: "length rows = 14"
    using assms(2) by (simp add: layout_values)
  have "num_pages (two_leaf_table rows) = 3"
    by (simp add: two_leaf_table_def)
  then show ?thesis
    using table_init_fresh execute_inserts_14 [OF assms(1) len, of d]
      execute_select_two_leaves [OF assms(1) len, of d] ids_1_to_14 [OF assms(1) len]
    by (intro exI [of _ fresh_table] exI [of _ "two_leaf_table rows"])
       (simp add: two_leaf_table_root two_leaf_table_leaves layout_values)
qed

theorem insert_fourteen_rows_witness:
  "rows_from 1 first_rows \<and> int (length first_rows) = LEAF_NODE_MAX_CELLS + 1
   \<and> (\<exists>t. execute_inserts (Suc 0) first_rows fresh_table = Inr (replicate 14 EXECUTE_SUCCESS, t)
        \<and> get_node_type (node_at t 0) = Inr INTERNAL
        \<and> internal_node_num_keys (node_at t 0) = Inr 1
        \<and> internal_node_key (node_at t 0) 0 = Inr 7
        \<and> execute_select (Suc 0) t = Inr (first_rows, t))"
proof -
  have ok: "rows_from 1 first_rows" "int (length first_rows) = LEAF_NODE_MAX_CELLS + 1"
    using first_rows_ok by (simp_all add: layout_values)
  from insert_fourteen_rows [OF ok, of 0] show ?thesis
    using ok by (auto simp: table_init_fresh layout_values)
qed

subsection \<open>Every page is a leaf page\<close>




subsection \<open>The cells of a leaf and sorted insertion\<close>




subsection \<open>The split of a full leaf\<close>


lemma map_fst_leaf_cells:
  "map fst (map (\<lambda>c. (fst c mod 4294967296, snd c)) cells) = cell_keys cells"
  by (simp add: cell_keys_def)









end
